theory Spec2Isabelle
  imports Complex_Main
begin

section \<open>The driver interface used by vectorAddMMAP.cpp\<close>

text \<open>
  The sample talks to the CUDA driver API. Every driver call returns a \<open>CUresult\<close> and
  writes its answer through an out-parameter; the model pairs the two. A device handle
  (\<open>CUdevice\<close>) and the loop counters of the sample are C \<open>int\<close>s. They are modelled as
  \<open>int\<close>: the only arithmetic on them is \<open>dev++\<close> under the guard \<open>dev < num_devices\<close>,
  so no value leaves the range of a 32-bit \<open>int\<close> whenever \<open>num_devices\<close> is in it.
\<close>

datatype CUresult = CUDA_SUCCESS | CUDA_ERROR nat

datatype CUdevice_attribute = CU_DEVICE_ATTRIBUTE_VIRTUAL_ADDRESS_MANAGEMENT_SUPPORTED

type_synonym CUdevice = int

text \<open>The exit statuses of the process (\<open>EXIT_WAIVED\<close> is the samples' own status 2).\<close>

datatype exit_code = EXIT_SUCCESS | EXIT_FAILURE | EXIT_WAIVED

record driver =
  cuDeviceGetCount :: "CUresult \<times> int"
  cuDeviceCanAccessPeer :: "CUdevice \<Rightarrow> CUdevice \<Rightarrow> CUresult \<times> int"
  cuDeviceGetAttribute :: "CUdevice_attribute \<Rightarrow> CUdevice \<Rightarrow> CUresult \<times> int"

text \<open>
  \<open>checkCudaErrors\<close> is a macro of helper_cuda_drvapi.h, which is not among the sources.
  It is taken with the meaning it has in all the samples: a result other than
  \<open>CUDA_SUCCESS\<close> prints a message and ends the process with \<open>EXIT_FAILURE\<close>; on
  \<open>CUDA_SUCCESS\<close> execution continues with the value the call has written.
\<close>

fun checkCudaErrors :: "CUresult \<times> 'a \<Rightarrow> exit_code + 'a" where
  "checkCudaErrors (CUDA_SUCCESS, v) = Inr v"
| "checkCudaErrors (CUDA_ERROR n, v) = Inl EXIT_FAILURE"

section \<open>getBackingDevices\<close>

text \<open>
  The body of the \<open>for\<close> loop of \<open>getBackingDevices\<close> (lines 71 to 98), one call per
  iteration; \<open>continue\<close> is the recursive call with the vector unchanged, \<open>push_back\<close>
  appends. The attribute query of line 90 is made for \<open>cuDevice\<close>, as in the source.
\<close>

function backing_loop ::
  "driver \<Rightarrow> CUdevice \<Rightarrow> int \<Rightarrow> int \<Rightarrow> CUdevice list \<Rightarrow> exit_code + CUdevice list" where
  "backing_loop drv cuDevice num_devices dev backingDevices =
     (if dev < num_devices then
        (if dev = cuDevice then
           backing_loop drv cuDevice num_devices (dev + 1) backingDevices
         else
           (case checkCudaErrors (cuDeviceCanAccessPeer drv cuDevice dev) of
              Inl e \<Rightarrow> Inl e
            | Inr capable \<Rightarrow>
                if capable = 0 then
                  backing_loop drv cuDevice num_devices (dev + 1) backingDevices
                else
                  (case checkCudaErrors
                          (cuDeviceGetAttribute drv
                             CU_DEVICE_ATTRIBUTE_VIRTUAL_ADDRESS_MANAGEMENT_SUPPORTED cuDevice) of
                     Inl e \<Rightarrow> Inl e
                   | Inr attributeVal \<Rightarrow>
                       if attributeVal = 0 then
                         backing_loop drv cuDevice num_devices (dev + 1) backingDevices
                       else
                         backing_loop drv cuDevice num_devices (dev + 1)
                           (backingDevices @ [dev]))))
      else Inr backingDevices)"
  by pat_completeness auto
termination
  by (relation "measure (\<lambda>(drv, cuDevice, num_devices, dev, backingDevices).
                   nat (num_devices - dev))") auto

declare backing_loop.simps [simp del]

definition getBackingDevices :: "driver \<Rightarrow> CUdevice \<Rightarrow> exit_code + CUdevice list" where
  "getBackingDevices drv cuDevice =
     (case checkCudaErrors (cuDeviceGetCount drv) of
        Inl e \<Rightarrow> Inl e
      | Inr num_devices \<Rightarrow> backing_loop drv cuDevice num_devices 0 [cuDevice])"

text \<open>
  The condition under which iteration \<open>dev\<close> of the loop reaches \<open>push_back\<close>: the three
  \<open>continue\<close> guards of lines 77, 84 and 93 are all false.
\<close>

definition pushed :: "driver \<Rightarrow> CUdevice \<Rightarrow> CUdevice \<Rightarrow> bool" where
  "pushed drv cuDevice dev \<longleftrightarrow>
     dev \<noteq> cuDevice \<and> snd (cuDeviceCanAccessPeer drv cuDevice dev) \<noteq> 0 \<and>
     snd (cuDeviceGetAttribute drv CU_DEVICE_ATTRIBUTE_VIRTUAL_ADDRESS_MANAGEMENT_SUPPORTED cuDevice) \<noteq> 0"

text \<open>
  The vocabulary of the specification, read off the driver: a device relation
  \<open>canAccessPeer\<close> and a capability flag \<open>supportsVirtualAddressManagement\<close>; a query that
  fails establishes neither.
\<close>

definition canAccessPeer :: "driver \<Rightarrow> CUdevice \<Rightarrow> CUdevice \<Rightarrow> bool" where
  "canAccessPeer drv mappingDevice device =
     (case cuDeviceCanAccessPeer drv mappingDevice device of
        (r, capable) \<Rightarrow> r = CUDA_SUCCESS \<and> capable \<noteq> 0)"

definition supportsVirtualAddressManagement :: "driver \<Rightarrow> CUdevice \<Rightarrow> bool" where
  "supportsVirtualAddressManagement drv device =
     (case cuDeviceGetAttribute drv
             CU_DEVICE_ATTRIBUTE_VIRTUAL_ADDRESS_MANAGEMENT_SUPPORTED device of
        (r, attributeVal) \<Rightarrow> r = CUDA_SUCCESS \<and> attributeVal \<noteq> 0)"

text \<open>
  The Topology Prober as section 4.1 of the specification words it: the mapping device
  first, then every other known device, in enumeration order, that the mapping device can
  access as a peer and that itself supports virtual-address management.
\<close>

definition backingDevicesFor_spec :: "driver \<Rightarrow> CUdevice \<Rightarrow> CUdevice list" where
  "backingDevicesFor_spec drv mappingDevice =
     mappingDevice #
     filter (\<lambda>device. device \<noteq> mappingDevice \<and> canAccessPeer drv mappingDevice device \<and>
                       supportsVirtualAddressManagement drv device)
       [0..snd (cuDeviceGetCount drv) - 1]"

text \<open>
  Device tables used to run the definitions. \<open>two_gpus\<close>: devices 0 and 1 are peers, only
  device 0 supports virtual-address management. \<open>three_gpus\<close>: all devices are peers,
  devices 1 and 2 support virtual-address management, device 0 does not. \<open>four_gpus\<close>:
  device 0 supports it and reaches devices 2 and 3 but not device 1.
\<close>

definition two_gpus :: driver where
  "two_gpus = \<lparr>cuDeviceGetCount = (CUDA_SUCCESS, 2),
               cuDeviceCanAccessPeer = (\<lambda>a b. (CUDA_SUCCESS, 1)),
               cuDeviceGetAttribute = (\<lambda>attr dev. (CUDA_SUCCESS, if dev = 0 then 1 else 0))\<rparr>"

definition three_gpus :: driver where
  "three_gpus = \<lparr>cuDeviceGetCount = (CUDA_SUCCESS, 3),
                 cuDeviceCanAccessPeer = (\<lambda>a b. (CUDA_SUCCESS, 1)),
                 cuDeviceGetAttribute = (\<lambda>attr dev. (CUDA_SUCCESS, if dev = 0 then 0 else 1))\<rparr>"

definition four_gpus :: driver where
  "four_gpus = \<lparr>cuDeviceGetCount = (CUDA_SUCCESS, 4),
                cuDeviceCanAccessPeer = (\<lambda>a b. (CUDA_SUCCESS, if b = 1 then 0 else 1)),
                cuDeviceGetAttribute = (\<lambda>attr dev. (CUDA_SUCCESS, if dev = 0 then 1 else 0))\<rparr>"

section \<open>main and CleanupNoFailure\<close>

text \<open>
  Everything \<open>main\<close> calls outside the file is a parameter: the driver, the helpers of the
  samples' common headers, and the two allocator entry points of
  multidevicealloc_memmap.hpp, which act on an allocator state of type \<open>'s\<close>. The
  floating-point test of line 211, \<open>fabs(h_C[i] - sum) > 1e-7f\<close>, is the parameter
  \<open>out_of_tolerance\<close>. The model keeps what is observable of a run: the exit status, the
  allocator calls made, in order, and the allocator state they leave.
\<close>

datatype alloc_call =
    SimpleMalloc nat "CUdevice list" "CUdevice list"
  | SimpleFree nat nat

record 's sample_env =
  cuInit :: CUresult
  findCudaDeviceDRV :: "exit_code + CUdevice"
  cuda_driver :: driver
  cuCtxCreate :: "CUdevice \<Rightarrow> CUresult"
  findFatbinPath :: bool
  fatbin_size :: nat
  cuModuleLoadData :: CUresult
  cuModuleGetFunction :: CUresult
  simpleMallocMultiDeviceMmap ::
    "'s \<Rightarrow> nat \<Rightarrow> CUdevice list \<Rightarrow> CUdevice list \<Rightarrow> (CUresult \<times> nat \<times> nat) \<times> 's"
  cuMemcpyHtoD :: "nat \<Rightarrow> CUresult"
  cuLaunchKernel :: "int \<Rightarrow> int \<Rightarrow> nat \<Rightarrow> nat \<Rightarrow> nat \<Rightarrow> CUresult"
  cuMemcpyDtoH :: "nat \<Rightarrow> CUresult"
  out_of_tolerance :: "int \<Rightarrow> bool"
  simpleFreeMultiDeviceMmap :: "'s \<Rightarrow> nat \<Rightarrow> nat \<Rightarrow> CUresult \<times> 's"
  cuCtxDestroy :: CUresult

type_synonym 's run = "exit_code \<times> alloc_call list \<times> 's"

text \<open>A call of a function that returns only a \<open>CUresult\<close>, under \<open>checkCudaErrors\<close>.\<close>

definition checked :: "CUresult \<Rightarrow> exit_code + unit" where
  "checked r = checkCudaErrors (r, ())"

text \<open>The verification loop of lines 207 to 215; the result is the value of \<open>i\<close> after it.\<close>

function verify_loop :: "(int \<Rightarrow> bool) \<Rightarrow> int \<Rightarrow> int \<Rightarrow> int" where
  "verify_loop off N i =
     (if i < N then (if off i then i else verify_loop off N (i + 1)) else i)"
  by pat_completeness auto
termination
  by (relation "measure (\<lambda>(off, N, i). nat (N - i))") auto

declare verify_loop.simps [simp del]

text \<open>
  \<open>CleanupNoFailure\<close> (lines 223 to 249): the three frees, each with the
  \<open>allocationSize\<close> recorded for \<open>d_A\<close>, then the context. \<open>Inr ()\<close> is its normal return.
\<close>

definition CleanupNoFailure ::
  "'s sample_env \<Rightarrow> alloc_call list \<Rightarrow> 's \<Rightarrow> nat \<Rightarrow> nat \<Rightarrow> nat \<Rightarrow> nat \<Rightarrow>
   (exit_code + unit) \<times> alloc_call list \<times> 's" where
  "CleanupNoFailure env calls s d_A d_B d_C allocationSize =
     (let (rA, sA) = simpleFreeMultiDeviceMmap env s d_A allocationSize;
          callsA = calls @ [SimpleFree d_A allocationSize]
      in (case checked rA of Inl e \<Rightarrow> (Inl e, callsA, sA) | Inr _ \<Rightarrow>
     (let (rB, sB) = simpleFreeMultiDeviceMmap env sA d_B allocationSize;
          callsB = callsA @ [SimpleFree d_B allocationSize]
      in (case checked rB of Inl e \<Rightarrow> (Inl e, callsB, sB) | Inr _ \<Rightarrow>
     (let (rC, sC) = simpleFreeMultiDeviceMmap env sB d_C allocationSize;
          callsC = callsB @ [SimpleFree d_C allocationSize]
      in (case checked rC of Inl e \<Rightarrow> (Inl e, callsC, sC) | Inr _ \<Rightarrow>
     (case checked (cuCtxDestroy env) of Inl e \<Rightarrow> (Inl e, callsC, sC) | Inr _ \<Rightarrow>
      (Inr (), callsC, sC))))))))"

text \<open>
  Lines 161 to 220 of \<open>main\<close>: the three allocations, the copies, the kernel launch, the
  verification and the cleanup. \<open>N = 50000\<close> and \<open>size = N * sizeof(float) = 200000\<close>.
  Only the first allocation passes \<open>&allocationSize\<close>; the other two pass \<open>NULL\<close>.
\<close>

definition main_vectors ::
  "'s sample_env \<Rightarrow> 's \<Rightarrow> CUdevice list \<Rightarrow> CUdevice list \<Rightarrow> 's run" where
  "main_vectors env s backingDevices mappingDevices =
     (let N = 50000; size = 200000;
          ((rA, d_A, allocationSize), sA) =
             simpleMallocMultiDeviceMmap env s size backingDevices mappingDevices;
          callsA = [SimpleMalloc size backingDevices mappingDevices]
      in (case checked rA of Inl e \<Rightarrow> (e, callsA, sA) | Inr _ \<Rightarrow>
     (let ((rB, d_B, unusedB), sB) =
             simpleMallocMultiDeviceMmap env sA size backingDevices mappingDevices;
          callsB = callsA @ [SimpleMalloc size backingDevices mappingDevices]
      in (case checked rB of Inl e \<Rightarrow> (e, callsB, sB) | Inr _ \<Rightarrow>
     (let ((rC, d_C, unusedC), sC) =
             simpleMallocMultiDeviceMmap env sB size backingDevices mappingDevices;
          callsC = callsB @ [SimpleMalloc size backingDevices mappingDevices]
      in (case checked rC of Inl e \<Rightarrow> (e, callsC, sC) | Inr _ \<Rightarrow>
     (case checked (cuMemcpyHtoD env d_A) of Inl e \<Rightarrow> (e, callsC, sC) | Inr _ \<Rightarrow>
     (case checked (cuMemcpyHtoD env d_B) of Inl e \<Rightarrow> (e, callsC, sC) | Inr _ \<Rightarrow>
     (let threadsPerBlock = 256;
          blocksPerGrid = (N + threadsPerBlock - 1) div threadsPerBlock
      in (case checked (cuLaunchKernel env blocksPerGrid threadsPerBlock d_A d_B d_C) of
            Inl e \<Rightarrow> (e, callsC, sC) | Inr _ \<Rightarrow>
     (case checked (cuMemcpyDtoH env d_C) of Inl e \<Rightarrow> (e, callsC, sC) | Inr _ \<Rightarrow>
     (let i = verify_loop (out_of_tolerance env) N 0;
          (r, calls, s') = CleanupNoFailure env callsC sC d_A d_B d_C allocationSize
      in (case r of
            Inl e \<Rightarrow> (e, calls, s')
          | Inr _ \<Rightarrow> (if i = N then EXIT_SUCCESS else EXIT_FAILURE, calls, s'))))))))))))))"

text \<open>
  \<open>main\<close>, lines 103 to 160, followed by \<open>main_vectors\<close>. Up to the first allocation no
  allocator call has been made and the allocator state is the initial one.
\<close>

definition main :: "'s sample_env \<Rightarrow> 's \<Rightarrow> 's run" where
  "main env s =
     (case checked (cuInit env) of Inl e \<Rightarrow> (e, [], s) | Inr _ \<Rightarrow>
     (case findCudaDeviceDRV env of Inl e \<Rightarrow> (e, [], s) | Inr cuDevice \<Rightarrow>
     (case checkCudaErrors
             (cuDeviceGetAttribute (cuda_driver env)
                CU_DEVICE_ATTRIBUTE_VIRTUAL_ADDRESS_MANAGEMENT_SUPPORTED cuDevice) of
        Inl e \<Rightarrow> (e, [], s)
      | Inr attributeVal \<Rightarrow>
          if attributeVal = 0 then (EXIT_WAIVED, [], s)
          else
            let mappingDevices = [cuDevice] in
            (case getBackingDevices (cuda_driver env) cuDevice of
               Inl e \<Rightarrow> (e, [], s)
             | Inr backingDevices \<Rightarrow>
            (case checked (cuCtxCreate env cuDevice) of Inl e \<Rightarrow> (e, [], s) | Inr _ \<Rightarrow>
             if \<not> findFatbinPath env then (EXIT_FAILURE, [], s)
             else if fatbin_size env = 0 then (EXIT_FAILURE, [], s)
             else
            (case checked (cuModuleLoadData env) of Inl e \<Rightarrow> (e, [], s) | Inr _ \<Rightarrow>
            (case checked (cuModuleGetFunction env) of Inl e \<Rightarrow> (e, [], s) | Inr _ \<Rightarrow>
             main_vectors env s backingDevices mappingDevices)))))))"

section \<open>The allocator of multidevicealloc_memmap\<close>

text \<open>
  Modelled from the spec: \<open>simpleMallocMultiDeviceMmap\<close> and \<open>simpleFreeMultiDeviceMmap\<close>
  are declared in multidevicealloc_memmap.hpp and defined beside it; neither file is among
  the sources, which only call them. The definitions of this section follow sections 3,
  4.2 to 4.6 and 7 of the specification. The primitives of the device layer (section 6)
  are parameters, so that each of them can fail at any call.
\<close>

datatype alloc_error =
    CapabilityUnsupported
  | PhysicalAllocationFailed
  | AddressReservationFailed
  | MappingFailed
  | UnknownAllocation

record PhysicalChunk =
  chunk_handle :: nat
  chunk_device :: CUdevice
  chunk_size :: nat

record VirtualRange =
  range_base :: nat
  range_size :: nat

record Allocation =
  alloc_range :: VirtualRange
  alloc_chunks :: "PhysicalChunk list"
  alloc_mappingSet :: "CUdevice list"

text \<open>
  Modelled from the spec: the resources in existence and the AllocationRegistry.
  \<open>live_chunks\<close> holds the physical handles created and not released, \<open>reserved\<close> the
  reserved ranges (base to size), \<open>mapped\<close> the handle mapped at an address, \<open>registry\<close>
  the Allocation recorded for a base pointer.
\<close>

record allocator_state =
  live_chunks :: "nat \<rightharpoonup> PhysicalChunk"
  reserved :: "nat \<rightharpoonup> nat"
  mapped :: "nat \<rightharpoonup> nat"
  registry :: "nat \<rightharpoonup> Allocation"

definition initial_state :: allocator_state where
  "initial_state = \<lparr>live_chunks = Map.empty, reserved = Map.empty, mapped = Map.empty,
                     registry = Map.empty\<rparr>"

text \<open>
  Modelled from the spec: the primitives of section 6. \<open>createHandle\<close> answers with a new
  handle or fails (out of device memory), \<open>reserveAddress\<close> with a base address or fails
  (address space exhausted); \<open>mapHandle\<close> and \<open>grantAccess\<close> succeed or fail.
\<close>

record vmm =
  granularityOf :: "CUdevice \<Rightarrow> nat"
  createHandle :: "(nat \<rightharpoonup> PhysicalChunk) \<Rightarrow> CUdevice \<Rightarrow> nat \<Rightarrow> nat option"
  reserveAddress :: "(nat \<rightharpoonup> nat) \<Rightarrow> nat \<Rightarrow> nat \<Rightarrow> nat option"
  mapHandle :: "nat \<Rightarrow> nat \<Rightarrow> bool"
  grantAccess :: "nat \<Rightarrow> nat \<Rightarrow> CUdevice \<Rightarrow> bool"

text \<open>Modelled from the spec: rounding up to a multiple of a granularity (section 4.2).\<close>

definition roundUp :: "nat \<Rightarrow> nat \<Rightarrow> nat" where
  "roundUp n g = (if g = 0 then n else ((n + g - 1) div g) * g)"

text \<open>
  Modelled from the spec: the reference sizing policy of section 4.3, the requested size
  divided evenly by the number of backing devices (rounded up, so that the capacity covers
  the request); each share is then rounded to its device's granularity.
\<close>

definition shareOf :: "nat \<Rightarrow> CUdevice list \<Rightarrow> nat" where
  "shareOf requestedSize backingSet =
     (if backingSet = [] then 0
      else (requestedSize + length backingSet - 1) div length backingSet)"

text \<open>
  Modelled from the spec: section 4.3. One chunk per backing-set entry, in order; when a
  creation fails, every chunk already created by the call is released again (the
  unwinding of the recursion is the reverse-order cleanup of section 9).
\<close>

fun allocateChunks ::
  "vmm \<Rightarrow> allocator_state \<Rightarrow> nat \<Rightarrow> CUdevice list \<Rightarrow>
   (alloc_error + PhysicalChunk list) \<times> allocator_state" where
  "allocateChunks rt st share [] = (Inr [], st)"
| "allocateChunks rt st share (device # devices) =
     (case createHandle rt (live_chunks st) device (roundUp share (granularityOf rt device)) of
        None \<Rightarrow> (Inl PhysicalAllocationFailed, st)
      | Some h \<Rightarrow>
          (let chunk = \<lparr>chunk_handle = h, chunk_device = device,
                        chunk_size = roundUp share (granularityOf rt device)\<rparr>
           in (case allocateChunks rt (st\<lparr>live_chunks := (live_chunks st)(h \<mapsto> chunk)\<rparr>)
                       share devices of
                 (Inr chunks, st') \<Rightarrow> (Inr (chunk # chunks), st')
               | (Inl e, st') \<Rightarrow>
                   (Inl e, st'\<lparr>live_chunks := (live_chunks st')(h := None)\<rparr>))))"

text \<open>Modelled from the spec: the teardown steps of section 4.6, each on its own.\<close>

fun releaseChunks :: "allocator_state \<Rightarrow> PhysicalChunk list \<Rightarrow> allocator_state" where
  "releaseChunks st [] = st"
| "releaseChunks st (chunk # chunks) =
     releaseChunks (st\<lparr>live_chunks := (live_chunks st)(chunk_handle chunk := None)\<rparr>) chunks"

fun unmapChunks :: "allocator_state \<Rightarrow> nat \<Rightarrow> PhysicalChunk list \<Rightarrow> allocator_state" where
  "unmapChunks st address [] = st"
| "unmapChunks st address (chunk # chunks) =
     unmapChunks (st\<lparr>mapped := (mapped st)(address := None)\<rparr>)
       (address + chunk_size chunk) chunks"

definition freeRange :: "allocator_state \<Rightarrow> nat \<Rightarrow> allocator_state" where
  "freeRange st base = st\<lparr>reserved := (reserved st)(base := None)\<rparr>"

text \<open>
  Modelled from the spec: the mapping walk of section 4.5, chunk \<open>i\<close> at the sum of the
  sizes before it; when a map call fails, the chunks mapped so far are unmapped.
\<close>

fun mapChunks ::
  "vmm \<Rightarrow> allocator_state \<Rightarrow> nat \<Rightarrow> PhysicalChunk list \<Rightarrow> bool \<times> allocator_state" where
  "mapChunks rt st address [] = (True, st)"
| "mapChunks rt st address (chunk # chunks) =
     (if mapHandle rt address (chunk_handle chunk) then
        (case mapChunks rt (st\<lparr>mapped := (mapped st)(address \<mapsto> chunk_handle chunk)\<rparr>)
                (address + chunk_size chunk) chunks of
           (True, st') \<Rightarrow> (True, st')
         | (False, st') \<Rightarrow> (False, st'\<lparr>mapped := (mapped st')(address := None)\<rparr>))
      else (False, st))"

text \<open>
  Modelled from the spec: \<open>allocate\<close> of section 4.6, the steps 4.2 to 4.5 in order with
  the rollback of section 7 at each failure, and the registry entry only on full success.
  The range is as large as the chunks together; its alignment is the largest granularity
  of the backing set.
\<close>

definition allocate ::
  "vmm \<Rightarrow> allocator_state \<Rightarrow> nat \<Rightarrow> CUdevice list \<Rightarrow> CUdevice list \<Rightarrow>
   (alloc_error + nat \<times> nat) \<times> allocator_state" where
  "allocate rt st requestedSize backingSet mappingSet =
     (case allocateChunks rt st (shareOf requestedSize backingSet) backingSet of
        (Inl e, st1) \<Rightarrow> (Inl e, st1)
      | (Inr chunks, st1) \<Rightarrow>
          (let totalSize = sum_list (map chunk_size chunks);
               alignment = foldr max (map (granularityOf rt) backingSet) 0
           in (case reserveAddress rt (reserved st1) totalSize alignment of
                 None \<Rightarrow> (Inl AddressReservationFailed, releaseChunks st1 chunks)
               | Some base \<Rightarrow>
                   (case mapChunks rt (st1\<lparr>reserved := (reserved st1)(base \<mapsto> totalSize)\<rparr>)
                           base chunks of
                      (False, st2) \<Rightarrow>
                        (Inl MappingFailed, freeRange (releaseChunks st2 chunks) base)
                    | (True, st2) \<Rightarrow>
                        if list_all (grantAccess rt base totalSize) mappingSet then
                          (Inr (base, totalSize),
                           st2\<lparr>registry := (registry st2)
                                  (base \<mapsto> \<lparr>alloc_range = \<lparr>range_base = base,
                                                                range_size = totalSize\<rparr>,
                                             alloc_chunks = chunks,
                                             alloc_mappingSet = mappingSet\<rparr>)\<rparr>)
                        else
                          (Inl MappingFailed,
                           freeRange (releaseChunks (unmapChunks st2 base chunks) chunks)
                             base)))))"

text \<open>
  Modelled from the spec: \<open>free\<close> of section 4.6. The pointer is looked up; when it is
  absent the call fails and nothing is torn down; on a hit the recorded chunks are
  unmapped and released, the reservation is freed and the entry removed. The size
  argument is accepted and the recorded extent is used.
\<close>

definition free ::
  "allocator_state \<Rightarrow> nat \<Rightarrow> nat \<Rightarrow> (alloc_error + unit) \<times> allocator_state" where
  "free st pointer nominalSize =
     (case registry st pointer of
        None \<Rightarrow> (Inl UnknownAllocation, st)
      | Some a \<Rightarrow>
          (let st1 = unmapChunks st (range_base (alloc_range a)) (alloc_chunks a);
               st2 = releaseChunks st1 (alloc_chunks a);
               st3 = freeRange st2 (range_base (alloc_range a))
           in (Inr (), st3\<lparr>registry := (registry st3)(pointer := None)\<rparr>)))"

text \<open>
  A history of the allocator: the requests made of it and its answers, from some state.
  \<open>outstanding\<close> follows the pointers through a history: a pointer is outstanding from
  the \<open>allocate\<close> that returned it until the \<open>free\<close> that succeeded on it.
\<close>

datatype request = Allocate nat "CUdevice list" "CUdevice list" | Free nat nat

datatype response = Allocated nat nat | Freed | Failed alloc_error

fun serve :: "vmm \<Rightarrow> allocator_state \<Rightarrow> request \<Rightarrow> response \<times> allocator_state" where
  "serve rt st (Allocate requestedSize backingSet mappingSet) =
     (case allocate rt st requestedSize backingSet mappingSet of
        (Inr (pointer, actualSize), st') \<Rightarrow> (Allocated pointer actualSize, st')
      | (Inl e, st') \<Rightarrow> (Failed e, st'))"
| "serve rt st (Free pointer nominalSize) =
     (case free st pointer nominalSize of
        (Inr u, st') \<Rightarrow> (Freed, st')
      | (Inl e, st') \<Rightarrow> (Failed e, st'))"

fun serve_all ::
  "vmm \<Rightarrow> allocator_state \<Rightarrow> request list \<Rightarrow> response list \<times> allocator_state" where
  "serve_all rt st [] = ([], st)"
| "serve_all rt st (rq # rqs) =
     (case serve rt st rq of
        (rsp, st') \<Rightarrow> (case serve_all rt st' rqs of (rsps, st'') \<Rightarrow> (rsp # rsps, st'')))"

fun outstanding :: "nat set \<Rightarrow> (request \<times> response) list \<Rightarrow> nat set" where
  "outstanding P [] = P"
| "outstanding P ((rq, Allocated pointer actualSize) # h) = outstanding (insert pointer P) h"
| "outstanding P ((Free pointer nominalSize, Freed) # h) = outstanding (P - {pointer}) h"
| "outstanding P ((rq, rsp) # h) = outstanding P h"

text \<open>
  Modelled from the spec: the addresses at which the chunks of an allocation are mapped
  (section 4.5), the base and then each chunk directly after the one before it.
\<close>

fun chunkAddresses :: "nat \<Rightarrow> PhysicalChunk list \<Rightarrow> nat list" where
  "chunkAddresses address [] = []"
| "chunkAddresses address (chunk # chunks) =
     address # chunkAddresses (address + chunk_size chunk) chunks"

section \<open>The single-precision test of lines 209 to 211\<close>

text \<open>
  The host arrays hold C \<open>float\<close>s, IEEE 754 binary32. A value is a finite number, an
  infinity or a NaN; a finite value is kept as the real number it stands for (the sign of a
  zero plays no part in an addition followed by \<open>fabs\<close> and a comparison).
\<close>

datatype float32 = Finite real | PInf | NInf | NaN

text \<open>
  Rounding to the nearest binary32 value, ties to the even significand. The quantum at
  \<open>x\<close> is \<open>2\<close> to the power \<open>max \<lfloor>log\<^sub>2 |x|\<rfloor> (-126) - 23\<close>; a result of magnitude
  \<open>2\<^sup>1\<^sup>2\<^sup>8\<close> or more overflows to the infinity of its sign.
\<close>

definition round_half_even :: "real \<Rightarrow> int" where
  "round_half_even r =
     (let f = \<lfloor>r\<rfloor>
      in if r - of_int f < 1 / 2 then f
         else if 1 / 2 < r - of_int f then f + 1
         else if even f then f else f + 1)"

definition round32 :: "real \<Rightarrow> float32" where
  "round32 x =
     (if x = 0 then Finite 0
      else
        (let e = max \<lfloor>log 2 \<bar>x\<bar>\<rfloor> (- 126) - 23;
             y = of_int (round_half_even (x / 2 powr of_int e)) * 2 powr of_int e
         in if 2 ^ 128 \<le> \<bar>y\<bar> then (if 0 < x then PInf else NInf) else Finite y))"

text \<open>The operations the test uses: \<open>+\<close>, \<open>-\<close>, \<open>fabs\<close> and \<open>>\<close>, with their special cases.\<close>

fun fadd :: "float32 \<Rightarrow> float32 \<Rightarrow> float32" where
  "fadd NaN b = NaN"
| "fadd a NaN = NaN"
| "fadd PInf NInf = NaN"
| "fadd NInf PInf = NaN"
| "fadd PInf b = PInf"
| "fadd a PInf = PInf"
| "fadd NInf b = NInf"
| "fadd a NInf = NInf"
| "fadd (Finite x) (Finite y) = round32 (x + y)"

fun fneg :: "float32 \<Rightarrow> float32" where
  "fneg (Finite x) = Finite (- x)"
| "fneg PInf = NInf"
| "fneg NInf = PInf"
| "fneg NaN = NaN"

definition fsub :: "float32 \<Rightarrow> float32 \<Rightarrow> float32" where
  "fsub a b = fadd a (fneg b)"

fun fabs :: "float32 \<Rightarrow> float32" where
  "fabs (Finite x) = Finite \<bar>x\<bar>"
| "fabs PInf = PInf"
| "fabs NInf = PInf"
| "fabs NaN = NaN"

text \<open>\<open>a > b\<close>: false as soon as one side is a NaN.\<close>

fun fgt :: "float32 \<Rightarrow> float32 \<Rightarrow> bool" where
  "fgt NaN b = False"
| "fgt a NaN = False"
| "fgt a PInf = False"
| "fgt PInf b = True"
| "fgt NInf b = False"
| "fgt (Finite x) NInf = True"
| "fgt (Finite x) (Finite y) = (y < x)"

text \<open>
  The constant \<open>1e-7f\<close>: the binary32 value nearest to \<open>10\<^sup>-\<^sup>7\<close>, which is
  \<open>14073749 * 2\<^sup>-\<^sup>4\<^sup>7\<close> (bit pattern 0x33D6BF95), a little above \<open>10\<^sup>-\<^sup>7\<close>.
\<close>

definition tolerance_1e_7f :: float32 where
  "tolerance_1e_7f = Finite (14073749 / 2 ^ 47)"

text \<open>
  Lines 209 to 211 at one index: \<open>float sum = h_A[i] + h_B[i]\<close>, then
  \<open>fabs(h_C[i] - sum) > 1e-7f\<close>. True means the loop breaks there.
\<close>

definition tolerance_exceeded :: "float32 \<Rightarrow> float32 \<Rightarrow> float32 \<Rightarrow> bool" where
  "tolerance_exceeded a b c =
     (let sum = fadd a b in fgt (fabs (fsub c sum)) tolerance_1e_7f)"

text \<open>
  The acceptance condition in the words of the specification: the result is within
  \<open>10\<^sup>-\<^sup>7\<close> of the sum, as numbers. An element that is not a number is not within any
  tolerance of anything.
\<close>

definition within_tolerance_spec :: "float32 \<Rightarrow> float32 \<Rightarrow> float32 \<Rightarrow> bool" where
  "within_tolerance_spec a b c =
     (case a of
        Finite x \<Rightarrow>
          (case b of
             Finite y \<Rightarrow>
               (case c of Finite z \<Rightarrow> \<bar>z - (x + y)\<bar> \<le> 1 / 10 ^ 7 | _ \<Rightarrow> False)
           | _ \<Rightarrow> False)
      | _ \<Rightarrow> False)"

section \<open>Example runs\<close>

text \<open>
  A device layer in which every primitive succeeds, with a granularity of 4096 bytes, and
  the sample run against the allocator above on a given driver and selected device.
\<close>

definition example_vmm :: vmm where
  "example_vmm = \<lparr>granularityOf = (\<lambda>device. 4096),
                  createHandle = (\<lambda>live device n. Some (nat device + 1)),
                  reserveAddress = (\<lambda>ranges n alignment. Some 65536),
                  mapHandle = (\<lambda>address h. True),
                  grantAccess = (\<lambda>base n device. True)\<rparr>"

definition sample_on :: "driver \<Rightarrow> CUdevice \<Rightarrow> vmm \<Rightarrow> allocator_state sample_env" where
  "sample_on drv device rt =
     \<lparr>cuInit = CUDA_SUCCESS,
      findCudaDeviceDRV = Inr device,
      cuda_driver = drv,
      cuCtxCreate = (\<lambda>dev. CUDA_SUCCESS),
      findFatbinPath = True,
      fatbin_size = 1,
      cuModuleLoadData = CUDA_SUCCESS,
      cuModuleGetFunction = CUDA_SUCCESS,
      simpleMallocMultiDeviceMmap =
        (\<lambda>st n backingSet mappingSet.
           case allocate rt st n backingSet mappingSet of
             (Inr (pointer, actualSize), st') \<Rightarrow> ((CUDA_SUCCESS, pointer, actualSize), st')
           | (Inl e, st') \<Rightarrow> ((CUDA_ERROR 2, 0, 0), st')),
      cuMemcpyHtoD = (\<lambda>dst. CUDA_SUCCESS),
      cuLaunchKernel = (\<lambda>blocks threads a b c. CUDA_SUCCESS),
      cuMemcpyDtoH = (\<lambda>src. CUDA_SUCCESS),
      out_of_tolerance = (\<lambda>i. False),
      simpleFreeMultiDeviceMmap =
        (\<lambda>st pointer n.
           case free st pointer n of
             (Inr u, st') \<Rightarrow> (CUDA_SUCCESS, st')
           | (Inl e, st') \<Rightarrow> (CUDA_ERROR 1, st')),
      cuCtxDestroy = CUDA_SUCCESS\<rparr>"

text \<open>
  A run of the sample on \<open>two_gpus\<close>, device 0, in which every call succeeds except,
  possibly, the frees, which answer \<open>freeResult\<close>. The allocator state counts the live
  allocations; the host arrays after the copies are \<open>h_A\<close>, \<open>h_B\<close> and \<open>h_C\<close>.
\<close>

definition host_run ::
  "(int \<Rightarrow> float32) \<Rightarrow> (int \<Rightarrow> float32) \<Rightarrow> (int \<Rightarrow> float32) \<Rightarrow> CUresult \<Rightarrow>
   nat sample_env" where
  "host_run h_A h_B h_C freeResult =
     \<lparr>cuInit = CUDA_SUCCESS,
      findCudaDeviceDRV = Inr 0,
      cuda_driver = two_gpus,
      cuCtxCreate = (\<lambda>dev. CUDA_SUCCESS),
      findFatbinPath = True,
      fatbin_size = 1,
      cuModuleLoadData = CUDA_SUCCESS,
      cuModuleGetFunction = CUDA_SUCCESS,
      simpleMallocMultiDeviceMmap =
        (\<lambda>live n backingSet mappingSet. ((CUDA_SUCCESS, 2097152 * (live + 1), n), live + 1)),
      cuMemcpyHtoD = (\<lambda>dst. CUDA_SUCCESS),
      cuLaunchKernel = (\<lambda>blocks threads a b c. CUDA_SUCCESS),
      cuMemcpyDtoH = (\<lambda>src. CUDA_SUCCESS),
      out_of_tolerance = (\<lambda>i. tolerance_exceeded (h_A i) (h_B i) (h_C i)),
      simpleFreeMultiDeviceMmap =
        (\<lambda>live pointer n.
           (freeResult, if freeResult = CUDA_SUCCESS then live - 1 else live)),
      cuCtxDestroy = CUDA_SUCCESS\<rparr>"

text \<open>Host arrays: all zero, and all zero but for a NaN at index 7.\<close>

definition zeros :: "int \<Rightarrow> float32" where
  "zeros = (\<lambda>i. Finite 0)"

definition nan_at_7 :: "int \<Rightarrow> float32" where
  "nan_at_7 = (\<lambda>i. if i = 7 then NaN else Finite 0)"

section \<open>Properties of getBackingDevices\<close>

lemma checkCudaErrors_Inr: "checkCudaErrors q = Inr v \<longleftrightarrow> q = (CUDA_SUCCESS, v)"
  by (cases q rule: checkCudaErrors.cases) auto

lemma checkCudaErrors_Inl: "checkCudaErrors q = Inl e \<longleftrightarrow> e = EXIT_FAILURE \<and> fst q \<noteq> CUDA_SUCCESS"
  by (cases q rule: checkCudaErrors.cases) auto

lemma checkCudaErrors_ok: "fst q = CUDA_SUCCESS \<Longrightarrow> checkCudaErrors q = Inr (snd q)"
  by (cases q rule: checkCudaErrors.cases) auto

lemma upto_step: "dev < n \<Longrightarrow> [dev..n - 1] = dev # [dev + 1..n - 1]"
  by (simp add: upto_rec1)

lemma upto_done: "\<not> dev < n \<Longrightarrow> [dev..n - 1] = []"
  by simp

lemma pushed_self: "\<not> pushed drv d d"
  by (simp add: pushed_def)

lemma pushed_peer0: "cuDeviceCanAccessPeer drv d dev = (r, 0) \<Longrightarrow> \<not> pushed drv d dev"
  by (simp add: pushed_def)

lemma pushed_attr0:
  "cuDeviceGetAttribute drv CU_DEVICE_ATTRIBUTE_VIRTUAL_ADDRESS_MANAGEMENT_SUPPORTED d = (r, 0)
   \<Longrightarrow> \<not> pushed drv d dev"
  by (simp add: pushed_def)

lemma pushed_yes:
  "dev \<noteq> d \<Longrightarrow> cuDeviceCanAccessPeer drv d dev = (r, c) \<Longrightarrow> c \<noteq> 0 \<Longrightarrow>
   cuDeviceGetAttribute drv CU_DEVICE_ATTRIBUTE_VIRTUAL_ADDRESS_MANAGEMENT_SUPPORTED d = (r', a) \<Longrightarrow>
   a \<noteq> 0 \<Longrightarrow> pushed drv d dev"
  by (simp add: pushed_def)

lemma backing_loop_result:
  "backing_loop drv d n dev acc = Inr xs \<Longrightarrow> xs = acc @ filter (pushed drv d) [dev..n - 1]"
proof (induction drv d n dev acc rule: backing_loop.induct)
  case (1 drv d n dev acc)
  show ?case
  proof (cases "dev < n")
    case False
    with "1.prems" show ?thesis
      by (simp add: backing_loop.simps [of drv d n dev acc])
  next
    case True
    note lt = True
    from "1.prems" "1.IH" lt show ?thesis
      apply (subst (asm) backing_loop.simps)
      apply (simp only: upto_step [OF lt] filter.simps)
      apply (auto simp: pushed_self pushed_peer0 pushed_attr0 pushed_yes checkCudaErrors_Inr
                  split: if_splits sum.splits)
      done
  qed
qed

lemma backing_loop_queries:
  "backing_loop drv d n dev acc = Inr xs \<Longrightarrow> dev \<le> v \<Longrightarrow> v < n \<Longrightarrow> v \<noteq> d \<Longrightarrow>
   fst (cuDeviceCanAccessPeer drv d v) = CUDA_SUCCESS"
proof (induction drv d n dev acc rule: backing_loop.induct)
  case (1 drv d n dev acc)
  from "1.prems" have lt: "dev < n" by simp
  show ?case
  proof (cases "v = dev")
    case True
    with "1.prems" lt show ?thesis
      apply (subst (asm) backing_loop.simps)
      apply (auto simp: checkCudaErrors_Inr split: if_splits sum.splits)
      done
  next
    case False
    with "1.prems" have "dev + 1 \<le> v" by simp
    with "1.prems" "1.IH" lt show ?thesis
      apply (subst (asm) backing_loop.simps)
      apply (auto simp: checkCudaErrors_Inr split: if_splits sum.splits)
      done
  qed
qed

lemma backing_loop_attr:
  "backing_loop drv d n dev acc = Inr xs \<Longrightarrow> dev \<le> v \<Longrightarrow> v < n \<Longrightarrow> v \<noteq> d \<Longrightarrow>
   snd (cuDeviceCanAccessPeer drv d v) \<noteq> 0 \<Longrightarrow>
   fst (cuDeviceGetAttribute drv CU_DEVICE_ATTRIBUTE_VIRTUAL_ADDRESS_MANAGEMENT_SUPPORTED d) = CUDA_SUCCESS"
proof (induction drv d n dev acc rule: backing_loop.induct)
  case (1 drv d n dev acc)
  from "1.prems" have lt: "dev < n" by simp
  show ?case
  proof (cases "v = dev")
    case True
    with "1.prems" lt show ?thesis
      apply (subst (asm) backing_loop.simps)
      apply (auto simp: checkCudaErrors_Inr split: if_splits sum.splits)
      done
  next
    case False
    with "1.prems" have "dev + 1 \<le> v" by simp
    with "1.prems" "1.IH" lt show ?thesis
      apply (subst (asm) backing_loop.simps)
      apply (auto simp: checkCudaErrors_Inr split: if_splits sum.splits)
      done
  qed
qed

lemma backing_loop_returns:
  assumes "\<And>v. dev \<le> v \<Longrightarrow> v < n \<Longrightarrow> v \<noteq> d \<Longrightarrow>
             fst (cuDeviceCanAccessPeer drv d v) = CUDA_SUCCESS"
      and "fst (cuDeviceGetAttribute drv CU_DEVICE_ATTRIBUTE_VIRTUAL_ADDRESS_MANAGEMENT_SUPPORTED d)
             = CUDA_SUCCESS"
  shows "\<exists>xs. backing_loop drv d n dev acc = Inr xs"
  using assms
proof (induction drv d n dev acc rule: backing_loop.induct)
  case (1 drv d n dev acc)
  show ?case
  proof (cases "dev < n")
    case False
    then show ?thesis by (simp add: backing_loop.simps [of drv d n dev acc])
  next
    case True
    show ?thesis
    proof (cases "dev = d")
      case True
      with \<open>dev < n\<close> "1.IH"(1) "1.prems" show ?thesis
        by (subst backing_loop.simps) simp
    next
      case False
      with \<open>dev < n\<close> "1.prems" have p: "checkCudaErrors (cuDeviceCanAccessPeer drv d dev) =
          Inr (snd (cuDeviceCanAccessPeer drv d dev))"
        by (simp add: checkCudaErrors_ok)
      from "1.prems" have a: "checkCudaErrors (cuDeviceGetAttribute drv CU_DEVICE_ATTRIBUTE_VIRTUAL_ADDRESS_MANAGEMENT_SUPPORTED d) =
          Inr (snd (cuDeviceGetAttribute drv CU_DEVICE_ATTRIBUTE_VIRTUAL_ADDRESS_MANAGEMENT_SUPPORTED d))"
        by (simp add: checkCudaErrors_ok)
      have rest: "\<And>v. dev + 1 \<le> v \<Longrightarrow> v < n \<Longrightarrow> v \<noteq> d \<Longrightarrow>
                   fst (cuDeviceCanAccessPeer drv d v) = CUDA_SUCCESS"
        using "1.prems"(1) by simp
      note attr = "1.prems"(2)
      have skip1: "snd (cuDeviceCanAccessPeer drv d dev) = 0 \<Longrightarrow>
                   \<exists>xs. backing_loop drv d n (dev + 1) acc = Inr xs"
        using "1.IH"(2) [OF \<open>dev < n\<close> False p _ rest attr] by simp
      have skip2: "snd (cuDeviceCanAccessPeer drv d dev) \<noteq> 0 \<Longrightarrow>
                   snd (cuDeviceGetAttribute drv
                          CU_DEVICE_ATTRIBUTE_VIRTUAL_ADDRESS_MANAGEMENT_SUPPORTED d) = 0 \<Longrightarrow>
                   \<exists>xs. backing_loop drv d n (dev + 1) acc = Inr xs"
        using "1.IH"(3) [OF \<open>dev < n\<close> False p _ a _ rest attr] by simp
      have push: "snd (cuDeviceCanAccessPeer drv d dev) \<noteq> 0 \<Longrightarrow>
                  snd (cuDeviceGetAttribute drv
                         CU_DEVICE_ATTRIBUTE_VIRTUAL_ADDRESS_MANAGEMENT_SUPPORTED d) \<noteq> 0 \<Longrightarrow>
                  \<exists>xs. backing_loop drv d n (dev + 1) (acc @ [dev]) = Inr xs"
        using "1.IH"(4) [OF \<open>dev < n\<close> False p _ a _ rest attr] by simp
      from False \<open>dev < n\<close> skip1 skip2 push show ?thesis
        by (subst backing_loop.simps) (simp add: p a)
    qed
  qed
qed


lemma getBackingDevices_result:
  assumes "getBackingDevices drv d = Inr xs"
  shows "cuDeviceGetCount drv = (CUDA_SUCCESS, snd (cuDeviceGetCount drv))"
    and "backing_loop drv d (snd (cuDeviceGetCount drv)) 0 [d] = Inr xs"
    and "xs = d # filter (pushed drv d) [0..snd (cuDeviceGetCount drv) - 1]"
proof -
  from assms obtain n where n: "cuDeviceGetCount drv = (CUDA_SUCCESS, n)"
    and loop: "backing_loop drv d n 0 [d] = Inr xs"
    by (auto simp: getBackingDevices_def checkCudaErrors_Inr split: sum.splits)
  from n show "cuDeviceGetCount drv = (CUDA_SUCCESS, snd (cuDeviceGetCount drv))" by simp
  from n loop show "backing_loop drv d (snd (cuDeviceGetCount drv)) 0 [d] = Inr xs" by simp
  from n backing_loop_result [OF loop]
  show "xs = d # filter (pushed drv d) [0..snd (cuDeviceGetCount drv) - 1]" by simp
qed

lemma two_gpus_backing: "getBackingDevices two_gpus 0 = Inr [0, 1]"
  by (simp add: getBackingDevices_def two_gpus_def backing_loop.simps)

lemma three_gpus_backing: "getBackingDevices three_gpus 1 = Inr [1, 0, 2]"
  by (simp add: getBackingDevices_def three_gpus_def backing_loop.simps)

lemma four_gpus_backing: "getBackingDevices four_gpus 0 = Inr [0, 2, 3]"
  by (simp add: getBackingDevices_def four_gpus_def backing_loop.simps)

text \<open>
  C1 (fails on the code): the returned sequence is claimed never to contain a device that
  lacks virtual-address-management support. Line 90 queries the attribute of \<open>cuDevice\<close>,
  not of \<open>dev\<close>: on \<open>two_gpus\<close>, with mapping device 0, the code returns device 1, which
  is not the mapping device and lacks the support.
\<close>

theorem getBackingDevices_keeps_device_without_vam:
  "getBackingDevices two_gpus 0 = Inr [0, 1] \<and> (1::int) \<noteq> 0 \<and>
   \<not> supportsVirtualAddressManagement two_gpus 1"
  by (simp add: two_gpus_backing) (simp add: supportsVirtualAddressManagement_def two_gpus_def)

text \<open>
  C2 (fails on the code): the returned sequence is claimed to be the mapping device
  followed by exactly the other devices that are peers and support virtual-address
  management themselves. On \<open>three_gpus\<close>, with mapping device 1, the specified sequence
  is \<open>[1, 2]\<close>; the code returns \<open>[1, 0, 2]\<close>, since it tests the mapping device's own
  attribute for every candidate.
\<close>

theorem getBackingDevices_differs_from_spec:
  "getBackingDevices three_gpus 1 = Inr [1, 0, 2] \<and> backingDevicesFor_spec three_gpus 1 = [1, 2]"
proof -
  have "[0..snd (cuDeviceGetCount three_gpus) - 1] = [0, 1, 2]"
    by (simp add: three_gpus_def upto_rec1)
  then have "backingDevicesFor_spec three_gpus 1 = [1, 2]"
    by (simp add: backingDevicesFor_spec_def canAccessPeer_def
          supportsVirtualAddressManagement_def three_gpus_def)
  with three_gpus_backing show ?thesis by simp
qed

text \<open>
  C5: whenever \<open>getBackingDevices\<close> returns, the returned sequence is non-empty and its
  first element is the mapping device.
\<close>

theorem getBackingDevices_mapping_device_first:
  "getBackingDevices drv d = Inr xs \<Longrightarrow> xs \<noteq> [] \<and> hd xs = d"
  using getBackingDevices_result(3) [of drv d xs] by simp

theorem getBackingDevices_mapping_device_first_witness:
  "getBackingDevices three_gpus 1 = Inr [1, 0, 2] \<and> [1, 0, 2] \<noteq> ([] :: int list) \<and>
   hd [1, 0, 2] = (1::int)"
  using getBackingDevices_mapping_device_first [of three_gpus 1 "[1, 0, 2]"]
  by (simp add: three_gpus_backing)

text \<open>
  C6: a device of the returned sequence other than the mapping device is one the mapping
  device can access as a peer (the query of line 83 succeeded with a non-zero answer).
\<close>

theorem getBackingDevices_only_peers:
  assumes "getBackingDevices drv d = Inr xs" and "dev \<in> set xs" and "dev \<noteq> d"
  shows "canAccessPeer drv d dev"
proof -
  let ?n = "snd (cuDeviceGetCount drv)"
  note r = getBackingDevices_result [OF assms(1)]
  from r(3) assms(2,3) have range: "0 \<le> dev" "dev < ?n" and p: "pushed drv d dev"
    by auto
  from backing_loop_queries [OF r(2) range assms(3)]
  have "fst (cuDeviceCanAccessPeer drv d dev) = CUDA_SUCCESS" .
  with p show ?thesis
    by (auto simp: canAccessPeer_def pushed_def split: prod.splits)
qed

theorem getBackingDevices_only_peers_witness:
  "getBackingDevices four_gpus 0 = Inr [0, 2, 3] \<and> (3::int) \<in> set [0, 2, 3] \<and> (3::int) \<noteq> 0 \<and>
   canAccessPeer four_gpus 0 3"
  using getBackingDevices_only_peers [of four_gpus 0 "[0, 2, 3]" 3]
  by (simp add: four_gpus_backing)

text \<open>
  When the driver answers every query of the enumeration with \<open>CUDA_SUCCESS\<close>,
  \<open>getBackingDevices\<close> returns a sequence, whatever the answers are, and a candidate the
  mapping device cannot access as a peer is not in it.
\<close>

lemma getBackingDevices_returns:
  assumes "fst (cuDeviceGetCount drv) = CUDA_SUCCESS"
      and "\<forall>dev. 0 \<le> dev \<and> dev < snd (cuDeviceGetCount drv) \<and> dev \<noteq> d \<longrightarrow>
                 fst (cuDeviceCanAccessPeer drv d dev) = CUDA_SUCCESS"
      and "fst (cuDeviceGetAttribute drv
                  CU_DEVICE_ATTRIBUTE_VIRTUAL_ADDRESS_MANAGEMENT_SUPPORTED d) = CUDA_SUCCESS"
  shows "\<exists>xs. getBackingDevices drv d = Inr xs"
proof -
  from assms(1) have "checkCudaErrors (cuDeviceGetCount drv) = Inr (snd (cuDeviceGetCount drv))"
    by (rule checkCudaErrors_ok)
  moreover from assms(2,3)
  have "\<exists>xs. backing_loop drv d (snd (cuDeviceGetCount drv)) 0 [d] = Inr xs"
    by (intro backing_loop_returns) auto
  ultimately show ?thesis by (simp add: getBackingDevices_def)
qed

lemma getBackingDevices_skips_non_peers:
  assumes "getBackingDevices drv d = Inr xs" and "dev \<noteq> d"
      and "\<not> canAccessPeer drv d dev"
  shows "dev \<notin> set xs"
proof
  assume mem: "dev \<in> set xs"
  let ?n = "snd (cuDeviceGetCount drv)"
  note r = getBackingDevices_result [OF assms(1)]
  from r(3) mem assms(2) have range: "0 \<le> dev" "dev < ?n" and p: "pushed drv d dev"
    by auto
  from backing_loop_queries [OF r(2) range assms(2)]
  have "fst (cuDeviceCanAccessPeer drv d dev) = CUDA_SUCCESS" .
  with p have "canAccessPeer drv d dev"
    by (auto simp: canAccessPeer_def pushed_def split: prod.splits)
  with assms(3) show False by contradiction
qed

text \<open>
  C7 (fails on the code): candidates failing either predicate are claimed to be silently
  skipped. On \<open>four_gpus\<close>, with mapping device 0, the call completes and device 1, which
  is not a peer, is skipped; devices 2 and 3, which lack virtual-address-management
  support, are not skipped: line 92 tests the mapping device's attribute in their place.
\<close>

theorem getBackingDevices_keeps_candidates_without_vam:
  "getBackingDevices four_gpus 0 = Inr [0, 2, 3] \<and>
   \<not> canAccessPeer four_gpus 0 1 \<and>
   \<not> supportsVirtualAddressManagement four_gpus 2 \<and>
   \<not> supportsVirtualAddressManagement four_gpus 3"
  by (simp add: four_gpus_backing)
     (simp add: canAccessPeer_def supportsVirtualAddressManagement_def four_gpus_def)

text \<open>
  C10: no device occurs twice in the returned sequence, and the mapping device, pushed
  before the loop and skipped inside it, occurs exactly once. (The enumerated devices
  \<open>0, ..., num_devices - 1\<close> are pairwise distinct by construction.)
\<close>

theorem getBackingDevices_distinct:
  "getBackingDevices drv d = Inr xs \<Longrightarrow> distinct xs \<and> count_list xs d = 1"
proof -
  assume "getBackingDevices drv d = Inr xs"
  from getBackingDevices_result(3) [OF this]
  have xs: "xs = d # filter (pushed drv d) [0..snd (cuDeviceGetCount drv) - 1]" .
  have notin: "d \<notin> set (filter (pushed drv d) [0..snd (cuDeviceGetCount drv) - 1])"
    by (simp add: pushed_self)
  then have "count_list (filter (pushed drv d) [0..snd (cuDeviceGetCount drv) - 1]) d = 0"
    by (simp only: count_list_0_iff not_False_eq_True)
  with xs notin show ?thesis by simp
qed

theorem getBackingDevices_distinct_witness:
  "getBackingDevices three_gpus 1 = Inr [1, 0, 2] \<and> distinct [1, 0, 2 :: int] \<and>
   count_list [1, 0, 2 :: int] 1 = 1"
  using getBackingDevices_distinct [of three_gpus 1 "[1, 0, 2]"]
  by (simp add: three_gpus_backing)

section \<open>Properties of main\<close>

lemma checked_simps:
  "checked CUDA_SUCCESS = Inr ()" "checked (CUDA_ERROR n) = Inl EXIT_FAILURE"
  by (simp_all add: checked_def)

text \<open>
  C8: when the selected device does not support virtual-address management, \<open>main\<close> ends
  before any allocator call: the call list is empty and the allocator state is the one it
  started with; the status is \<open>EXIT_WAIVED\<close> (\<open>EXIT_FAILURE\<close> when the attribute
  query itself failed).
\<close>

theorem main_abandons_unsupported_device:
  assumes "cuInit env = CUDA_SUCCESS" and "findCudaDeviceDRV env = Inr cuDevice"
      and "\<not> supportsVirtualAddressManagement (cuda_driver env) cuDevice"
  shows "main env s =
           (if fst (cuDeviceGetAttribute (cuda_driver env)
                      CU_DEVICE_ATTRIBUTE_VIRTUAL_ADDRESS_MANAGEMENT_SUPPORTED cuDevice) =
               CUDA_SUCCESS
            then EXIT_WAIVED else EXIT_FAILURE, [], s)"
proof (cases "cuDeviceGetAttribute (cuda_driver env)
                CU_DEVICE_ATTRIBUTE_VIRTUAL_ADDRESS_MANAGEMENT_SUPPORTED cuDevice"
         rule: checkCudaErrors.cases)
  case (1 v)
  with assms(3) have "v = 0"
    by (simp add: supportsVirtualAddressManagement_def)
  with 1 assms(1,2) show ?thesis
    by (simp add: main_def checked_simps)
next
  case (2 n v)
  with assms(1,2) show ?thesis
    by (simp add: main_def checked_simps)
qed

theorem main_abandons_unsupported_device_witness:
  "cuInit (sample_on three_gpus 0 example_vmm) = CUDA_SUCCESS \<and>
   findCudaDeviceDRV (sample_on three_gpus 0 example_vmm) = Inr 0 \<and>
   \<not> supportsVirtualAddressManagement (cuda_driver (sample_on three_gpus 0 example_vmm)) 0 \<and>
   main (sample_on three_gpus 0 example_vmm) initial_state = (EXIT_WAIVED, [], initial_state)"
  using main_abandons_unsupported_device [of "sample_on three_gpus 0 example_vmm" 0 initial_state]
  by (simp add: sample_on_def three_gpus_def supportsVirtualAddressManagement_def)

text \<open>
  The contrast: with a device that supports it and a start-up that succeeds, \<open>main\<close>
  goes on to lines 161 to 220, and the first thing recorded there is an allocator call.
\<close>

lemma CleanupNoFailure_calls:
  "CleanupNoFailure env calls s a b c n = (r, calls', s') \<Longrightarrow> \<exists>more. calls' = calls @ more"
  by (auto simp: CleanupNoFailure_def Let_def split: prod.splits sum.splits)

lemma main_vectors_first_call:
  "main_vectors env s bs ms = (code, calls, s') \<Longrightarrow>
   \<exists>more. calls = SimpleMalloc 200000 bs ms # more"
  by (auto simp: main_vectors_def Let_def split: prod.splits sum.splits
           dest!: CleanupNoFailure_calls)

lemma main_supported_device:
  assumes "cuInit env = CUDA_SUCCESS" and "findCudaDeviceDRV env = Inr cuDevice"
      and "supportsVirtualAddressManagement (cuda_driver env) cuDevice"
      and "getBackingDevices (cuda_driver env) cuDevice = Inr backingDevices"
      and "cuCtxCreate env cuDevice = CUDA_SUCCESS" and "findFatbinPath env"
      and "fatbin_size env \<noteq> 0" and "cuModuleLoadData env = CUDA_SUCCESS"
      and "cuModuleGetFunction env = CUDA_SUCCESS"
  shows "main env s = main_vectors env s backingDevices [cuDevice]"
proof -
  from assms(3) obtain v where
    "cuDeviceGetAttribute (cuda_driver env)
       CU_DEVICE_ATTRIBUTE_VIRTUAL_ADDRESS_MANAGEMENT_SUPPORTED cuDevice = (CUDA_SUCCESS, v)"
    and "v \<noteq> 0"
    by (auto simp: supportsVirtualAddressManagement_def split: prod.splits)
  with assms show ?thesis
    by (simp add: main_def checked_simps)
qed

text \<open>
  The verification loop ends with \<open>i = N\<close> exactly when the test of line 211 is false at
  every index from the start to \<open>N\<close>.
\<close>

lemma verify_loop_passes:
  "i \<le> N \<Longrightarrow> verify_loop off N i = N \<longleftrightarrow> (\<forall>j. i \<le> j \<and> j < N \<longrightarrow> \<not> off j)"
proof (induction off N i rule: verify_loop.induct)
  case (1 off N i)
  show ?case
  proof (cases "i < N")
    case False
    then have "verify_loop off N i = i"
      by (subst verify_loop.simps) simp
    moreover from False "1.prems" have "i = N" by simp
    ultimately show ?thesis by auto
  next
    case True
    show ?thesis
    proof (cases "off i")
      case True
      with \<open>i < N\<close> show ?thesis
        by (auto simp: verify_loop.simps [of off N i])
    next
      case False
      with \<open>i < N\<close> have ih:
        "verify_loop off N (i + 1) = N \<longleftrightarrow> (\<forall>j. i + 1 \<le> j \<and> j < N \<longrightarrow> \<not> off j)"
        by (intro "1.IH") auto
      have "(\<forall>j. i \<le> j \<and> j < N \<longrightarrow> \<not> off j) \<longleftrightarrow> (\<forall>j. i + 1 \<le> j \<and> j < N \<longrightarrow> \<not> off j)"
      proof (intro iffI allI impI)
        fix j assume a: "\<forall>j. i + 1 \<le> j \<and> j < N \<longrightarrow> \<not> off j" and j: "i \<le> j \<and> j < N"
        show "\<not> off j"
        proof (cases "j = i")
          case True
          with False show ?thesis by simp
        next
          case False
          with j have "i + 1 \<le> j \<and> j < N" by simp
          with a show ?thesis by blast
        qed
      qed auto
      with ih False \<open>i < N\<close> show ?thesis
        by (simp add: verify_loop.simps [of off N i])
    qed
  qed
qed


subsection \<open>The test of line 211\<close>

text \<open>
  The test is false when the difference is a NaN, and otherwise compares its magnitude
  with the constant. The constant is what rounding \<open>10\<^sup>-\<^sup>7\<close> gives, and lies above it: a
  result that differs from the sum by exactly the constant passes the test and is not
  within \<open>10\<^sup>-\<^sup>7\<close>.
\<close>

lemma round32_zero: "round32 0 = Finite 0"
  by (simp add: round32_def)

lemma tolerance_exceeded_zeros: "\<not> tolerance_exceeded (Finite 0) (Finite 0) (Finite 0)"
  by (simp add: tolerance_exceeded_def fsub_def round32_zero tolerance_1e_7f_def)

lemma tolerance_exceeded_NaN: "\<not> tolerance_exceeded a b NaN"
  by (simp add: tolerance_exceeded_def fsub_def)

lemma tolerance_exceeded_iff:
  "tolerance_exceeded a b c \<longleftrightarrow>
     (case fsub c (fadd a b) of
        Finite d \<Rightarrow> 14073749 / 2 ^ 47 < \<bar>d\<bar>
      | PInf \<Rightarrow> True | NInf \<Rightarrow> True | NaN \<Rightarrow> False)"
  by (cases "fsub c (fadd a b)") (simp_all add: tolerance_exceeded_def tolerance_1e_7f_def)

lemma floor_log2_tolerance: "\<lfloor>log 2 \<bar>1 / 10 ^ 7 :: real\<bar>\<rfloor> = - 24"
proof -
  have a: "(2::real) powr (- 24) \<le> 1 / 10 ^ 7"
    by (simp add: powr_minus divide_simps)
  have b: "(1 / 10 ^ 7 :: real) < 2 powr (- 23)"
    by (simp add: powr_minus divide_simps)
  have "of_int (- 24) \<le> log 2 (1 / 10 ^ 7)"
    using a by (subst le_log_iff) simp_all
  moreover have "log 2 (1 / 10 ^ 7) < of_int (- 24) + 1"
    using b by (subst log_less_iff) simp_all
  ultimately have "\<lfloor>log 2 (1 / 10 ^ 7 :: real)\<rfloor> = - 24"
    by (rule floor_unique)
  then show ?thesis by simp
qed

lemma round32_tolerance: "round32 (1 / 10 ^ 7) = tolerance_1e_7f"
proof -
  have p: "(2::real) powr (- 47) = 1 / 2 ^ 47"
    by (simp add: powr_minus divide_simps)
  have f: "\<lfloor>1099511627776 / 78125 :: real\<rfloor> = 14073748"
    by simp
  have r: "round_half_even (1099511627776 / 78125) = 14073749"
    unfolding round_half_even_def f Let_def by simp
  show ?thesis
    unfolding round32_def Let_def floor_log2_tolerance
    by (simp add: p r tolerance_1e_7f_def)
qed

lemma tolerance_above: "(1 / 10 ^ 7 :: real) < 14073749 / 2 ^ 47"
  by simp


lemma floor_log2_constant: "\<lfloor>log 2 \<bar>14073749 / 2 ^ 47 :: real\<bar>\<rfloor> = - 24"
proof -
  have a: "(2::real) powr (- 24) \<le> 14073749 / 2 ^ 47"
    by (simp add: powr_minus divide_simps)
  have b: "(14073749 / 2 ^ 47 :: real) < 2 powr (- 23)"
    by (simp add: powr_minus divide_simps)
  have "of_int (- 24) \<le> log 2 (14073749 / 2 ^ 47)"
    using a by (subst le_log_iff) simp_all
  moreover have "log 2 (14073749 / 2 ^ 47) < of_int (- 24) + 1"
    using b by (subst log_less_iff) simp_all
  ultimately have "\<lfloor>log 2 (14073749 / 2 ^ 47 :: real)\<rfloor> = - 24"
    by (rule floor_unique)
  then show ?thesis by simp
qed

lemma round32_constant: "round32 (14073749 / 2 ^ 47) = Finite (14073749 / 2 ^ 47)"
proof -
  have p: "(2::real) powr (- 47) = 1 / 2 ^ 47"
    by (simp add: powr_minus divide_simps)
  have r: "round_half_even 14073749 = 14073749"
    unfolding round_half_even_def Let_def by simp
  show ?thesis
    unfolding round32_def Let_def floor_log2_constant
    by (simp add: p r)
qed

lemma constant_accepted:
  "\<not> tolerance_exceeded (Finite 0) (Finite 0) tolerance_1e_7f \<and>
   \<not> within_tolerance_spec (Finite 0) (Finite 0) tolerance_1e_7f"
proof -
  have "fadd (Finite 0) (Finite 0) = Finite 0"
    by (simp add: round32_def)
  moreover have "fsub (Finite (14073749 / 2 ^ 47)) (Finite 0) = Finite (14073749 / 2 ^ 47)"
    using round32_constant by (simp add: fsub_def)
  ultimately have "\<not> tolerance_exceeded (Finite 0) (Finite 0) tolerance_1e_7f"
    unfolding tolerance_exceeded_def tolerance_1e_7f_def Let_def by simp
  moreover have "\<not> within_tolerance_spec (Finite 0) (Finite 0) tolerance_1e_7f"
    by (simp add: within_tolerance_spec_def tolerance_1e_7f_def)
  ultimately show ?thesis by (rule conjI)
qed


subsection \<open>The exit status of a run\<close>

lemma main_vectors_exit:
  assumes "simpleMallocMultiDeviceMmap env s 200000 bs ms = ((CUDA_SUCCESS, d_A, allocationSize), sA)"
      and "simpleMallocMultiDeviceMmap env sA 200000 bs ms = ((CUDA_SUCCESS, d_B, nB), sB)"
      and "simpleMallocMultiDeviceMmap env sB 200000 bs ms = ((CUDA_SUCCESS, d_C, nC), sC)"
      and "cuMemcpyHtoD env d_A = CUDA_SUCCESS" and "cuMemcpyHtoD env d_B = CUDA_SUCCESS"
      and "cuLaunchKernel env 196 256 d_A d_B d_C = CUDA_SUCCESS"
      and "cuMemcpyDtoH env d_C = CUDA_SUCCESS"
      and "simpleFreeMultiDeviceMmap env sC d_A allocationSize = (CUDA_SUCCESS, s1)"
      and "simpleFreeMultiDeviceMmap env s1 d_B allocationSize = (CUDA_SUCCESS, s2)"
      and "simpleFreeMultiDeviceMmap env s2 d_C allocationSize = (CUDA_SUCCESS, s3)"
      and "cuCtxDestroy env = CUDA_SUCCESS"
  shows "fst (main_vectors env s bs ms) =
           (if verify_loop (out_of_tolerance env) 50000 0 = 50000
            then EXIT_SUCCESS else EXIT_FAILURE)"
  using assms
  by (simp add: main_vectors_def CleanupNoFailure_def Let_def checked_simps)

lemma main_vectors_free_fails:
  assumes "simpleMallocMultiDeviceMmap env s 200000 bs ms = ((CUDA_SUCCESS, d_A, allocationSize), sA)"
      and "simpleMallocMultiDeviceMmap env sA 200000 bs ms = ((CUDA_SUCCESS, d_B, nB), sB)"
      and "simpleMallocMultiDeviceMmap env sB 200000 bs ms = ((CUDA_SUCCESS, d_C, nC), sC)"
      and "cuMemcpyHtoD env d_A = CUDA_SUCCESS" and "cuMemcpyHtoD env d_B = CUDA_SUCCESS"
      and "cuLaunchKernel env 196 256 d_A d_B d_C = CUDA_SUCCESS"
      and "cuMemcpyDtoH env d_C = CUDA_SUCCESS"
      and "simpleFreeMultiDeviceMmap env sC d_A allocationSize = (CUDA_ERROR k, s1)"
  shows "fst (main_vectors env s bs ms) = EXIT_FAILURE"
  using assms
  by (simp add: main_vectors_def CleanupNoFailure_def Let_def checked_simps)


lemma two_gpus_supports: "supportsVirtualAddressManagement two_gpus 0"
  by (simp add: supportsVirtualAddressManagement_def two_gpus_def)

lemma host_run_start:
  "main (host_run hA hB hC fr) s = main_vectors (host_run hA hB hC fr) s [0, 1] [0]"
  by (rule main_supported_device)
     (simp_all add: host_run_def two_gpus_supports two_gpus_backing)

lemma host_run_exit:
  "fst (main (host_run hA hB hC CUDA_SUCCESS) 0) =
     (if \<forall>i. 0 \<le> i \<and> i < 50000 \<longrightarrow> \<not> tolerance_exceeded (hA i) (hB i) (hC i)
      then EXIT_SUCCESS else EXIT_FAILURE)"
proof -
  let ?env = "host_run hA hB hC CUDA_SUCCESS"
  have "fst (main_vectors ?env 0 [0, 1] [0]) =
          (if verify_loop (out_of_tolerance ?env) 50000 0 = 50000
           then EXIT_SUCCESS else EXIT_FAILURE)"
    by (rule main_vectors_exit [where d_A = 2097152 and d_B = 4194304 and d_C = 6291456
          and allocationSize = 200000 and nB = 200000 and nC = 200000
          and sA = 1 and sB = 2 and sC = 3 and ?s1.0 = 2 and ?s2.0 = 1 and ?s3.0 = 0])
       (simp_all add: host_run_def)
  moreover have "out_of_tolerance ?env = (\<lambda>i. tolerance_exceeded (hA i) (hB i) (hC i))"
    by (simp add: host_run_def)
  ultimately show ?thesis
    using verify_loop_passes [of 0 50000 "\<lambda>i. tolerance_exceeded (hA i) (hB i) (hC i)"]
    by (simp add: host_run_start)
qed

lemma host_run_free_fails:
  "fst (main (host_run hA hB hC (CUDA_ERROR k)) 0) = EXIT_FAILURE"
proof -
  let ?env = "host_run hA hB hC (CUDA_ERROR k)"
  have "fst (main_vectors ?env 0 [0, 1] [0]) = EXIT_FAILURE"
    by (rule main_vectors_free_fails [where d_A = 2097152 and d_B = 4194304 and d_C = 6291456
          and allocationSize = 200000 and nB = 200000 and nC = 200000
          and sA = 1 and sB = 2 and sC = 3 and ?s1.0 = 3 and k = k])
       (simp_all add: host_run_def)
  then show ?thesis by (simp add: host_run_start)
qed

text \<open>
  C9 as stated fails in both directions. With a NaN at index 7 of \<open>h_C\<close> the test is
  false at every index and the run ends with \<open>EXIT_SUCCESS\<close> (PASS), although element 7
  is not within tolerance. With all elements within tolerance and a failing
  \<open>simpleFreeMultiDeviceMmap\<close>, \<open>CleanupNoFailure\<close> ends the process at line 226, before
  line 218 prints, with \<open>EXIT_FAILURE\<close>.
\<close>

theorem pass_iff_within_tolerance_counterexample:
  "\<not> (fst (main (host_run zeros zeros nan_at_7 CUDA_SUCCESS) 0) = EXIT_SUCCESS \<longleftrightarrow>
        (\<forall>i. 0 \<le> i \<and> i < 50000 \<longrightarrow>
             within_tolerance_spec (zeros i) (zeros i) (nan_at_7 i))) \<and>
   \<not> (fst (main (host_run zeros zeros zeros (CUDA_ERROR 1)) 0) = EXIT_SUCCESS \<longleftrightarrow>
        (\<forall>i. 0 \<le> i \<and> i < 50000 \<longrightarrow>
             within_tolerance_spec (zeros i) (zeros i) (zeros i)))"
proof -
  have "\<forall>i. 0 \<le> i \<and> i < 50000 \<longrightarrow>
          \<not> tolerance_exceeded (zeros i) (zeros i) (nan_at_7 i)"
    by (simp add: zeros_def nan_at_7_def tolerance_exceeded_zeros tolerance_exceeded_NaN)
  then have pass: "fst (main (host_run zeros zeros nan_at_7 CUDA_SUCCESS) 0) = EXIT_SUCCESS"
    by (subst host_run_exit) (rule if_P)
  have "\<not> within_tolerance_spec (zeros 7) (zeros 7) (nan_at_7 7)"
    by (simp add: within_tolerance_spec_def zeros_def nan_at_7_def)
  then have "\<not> (\<forall>i. 0 \<le> i \<and> i < 50000 \<longrightarrow>
               within_tolerance_spec (zeros i) (zeros i) (nan_at_7 i))"
    by (intro notI) (drule spec [of _ 7], simp)
  with pass have first: "\<not> (fst (main (host_run zeros zeros nan_at_7 CUDA_SUCCESS) 0) = EXIT_SUCCESS \<longleftrightarrow>
        (\<forall>i. 0 \<le> i \<and> i < 50000 \<longrightarrow>
             within_tolerance_spec (zeros i) (zeros i) (nan_at_7 i)))"
    by simp
  have fail: "fst (main (host_run zeros zeros zeros (CUDA_ERROR 1)) 0) = EXIT_FAILURE"
    by (rule host_run_free_fails)
  have "\<forall>i. 0 \<le> i \<and> i < 50000 \<longrightarrow> within_tolerance_spec (zeros i) (zeros i) (zeros i)"
    by (simp add: within_tolerance_spec_def zeros_def)
  with fail have second: "\<not> (fst (main (host_run zeros zeros zeros (CUDA_ERROR 1)) 0) = EXIT_SUCCESS \<longleftrightarrow>
        (\<forall>i. 0 \<le> i \<and> i < 50000 \<longrightarrow>
             within_tolerance_spec (zeros i) (zeros i) (zeros i)))"
    by simp
  from first second show ?thesis by (rule conjI)
qed


text \<open>
  C9 (amended): in a run in which the start-up, the three allocations, the copies, the
  launch and the cleanup all succeed, \<open>main\<close> ends with \<open>EXIT_SUCCESS\<close> (and has printed
  PASS) if and only if the test \<open>fabs(h_C[i] - sum) > 1e-7f\<close> is false at every index
  \<open>i\<close> from 0 to \<open>N - 1\<close>, with \<open>N = 50000\<close>.
\<close>

theorem main_reports_pass:
  assumes "cuInit env = CUDA_SUCCESS"
      and "findCudaDeviceDRV env = Inr cuDevice"
      and "supportsVirtualAddressManagement (cuda_driver env) cuDevice"
      and "getBackingDevices (cuda_driver env) cuDevice = Inr backingDevices"
      and "cuCtxCreate env cuDevice = CUDA_SUCCESS"
      and "findFatbinPath env" and "fatbin_size env \<noteq> 0"
      and "cuModuleLoadData env = CUDA_SUCCESS"
      and "cuModuleGetFunction env = CUDA_SUCCESS"
      and "simpleMallocMultiDeviceMmap env s 200000 backingDevices [cuDevice] =
             ((CUDA_SUCCESS, d_A, allocationSize), sA)"
      and "simpleMallocMultiDeviceMmap env sA 200000 backingDevices [cuDevice] =
             ((CUDA_SUCCESS, d_B, nB), sB)"
      and "simpleMallocMultiDeviceMmap env sB 200000 backingDevices [cuDevice] =
             ((CUDA_SUCCESS, d_C, nC), sC)"
      and "cuMemcpyHtoD env d_A = CUDA_SUCCESS" and "cuMemcpyHtoD env d_B = CUDA_SUCCESS"
      and "cuLaunchKernel env 196 256 d_A d_B d_C = CUDA_SUCCESS"
      and "cuMemcpyDtoH env d_C = CUDA_SUCCESS"
      and "simpleFreeMultiDeviceMmap env sC d_A allocationSize = (CUDA_SUCCESS, s1)"
      and "simpleFreeMultiDeviceMmap env s1 d_B allocationSize = (CUDA_SUCCESS, s2)"
      and "simpleFreeMultiDeviceMmap env s2 d_C allocationSize = (CUDA_SUCCESS, s3)"
      and "cuCtxDestroy env = CUDA_SUCCESS"
      and "out_of_tolerance env = (\<lambda>i. tolerance_exceeded (h_A i) (h_B i) (h_C i))"
  shows "fst (main env s) = EXIT_SUCCESS \<longleftrightarrow>
           (\<forall>i. 0 \<le> i \<and> i < 50000 \<longrightarrow> \<not> tolerance_exceeded (h_A i) (h_B i) (h_C i))"
proof -
  have "main env s = main_vectors env s backingDevices [cuDevice]"
    using assms(1-9) by (rule main_supported_device)
  moreover have "fst (main_vectors env s backingDevices [cuDevice]) =
          (if verify_loop (out_of_tolerance env) 50000 0 = 50000
           then EXIT_SUCCESS else EXIT_FAILURE)"
    using assms(10-20) by (rule main_vectors_exit)
  ultimately show ?thesis
    using verify_loop_passes [of 0 50000 "out_of_tolerance env"] assms(21)
    by simp
qed

theorem main_reports_pass_witness:
  "supportsVirtualAddressManagement (cuda_driver (host_run zeros zeros zeros CUDA_SUCCESS)) 0 \<and>
   getBackingDevices (cuda_driver (host_run zeros zeros zeros CUDA_SUCCESS)) 0 = Inr [0, 1] \<and>
   simpleMallocMultiDeviceMmap (host_run zeros zeros zeros CUDA_SUCCESS) 0 200000 [0, 1] [0] =
     ((CUDA_SUCCESS, 2097152, 200000), 1) \<and>
   simpleMallocMultiDeviceMmap (host_run zeros zeros zeros CUDA_SUCCESS) 1 200000 [0, 1] [0] =
     ((CUDA_SUCCESS, 4194304, 200000), 2) \<and>
   simpleMallocMultiDeviceMmap (host_run zeros zeros zeros CUDA_SUCCESS) 2 200000 [0, 1] [0] =
     ((CUDA_SUCCESS, 6291456, 200000), 3) \<and>
   simpleFreeMultiDeviceMmap (host_run zeros zeros zeros CUDA_SUCCESS) 3 2097152 200000 =
     (CUDA_SUCCESS, 2) \<and>
   simpleFreeMultiDeviceMmap (host_run zeros zeros zeros CUDA_SUCCESS) 2 4194304 200000 =
     (CUDA_SUCCESS, 1) \<and>
   simpleFreeMultiDeviceMmap (host_run zeros zeros zeros CUDA_SUCCESS) 1 6291456 200000 =
     (CUDA_SUCCESS, 0) \<and>
   out_of_tolerance (host_run zeros zeros zeros CUDA_SUCCESS) =
     (\<lambda>i. tolerance_exceeded (zeros i) (zeros i) (zeros i)) \<and>
   \<not> tolerance_exceeded (Finite 0) (Finite 0) (Finite 0) \<and>
   fst (main (host_run zeros zeros zeros CUDA_SUCCESS) 0) = EXIT_SUCCESS"
proof -
  let ?env = "host_run zeros zeros zeros CUDA_SUCCESS"
  have a: "supportsVirtualAddressManagement (cuda_driver ?env) 0"
    by (simp add: host_run_def two_gpus_supports)
  have b: "getBackingDevices (cuda_driver ?env) 0 = Inr [0, 1]"
    by (simp add: host_run_def two_gpus_backing)
  have t: "out_of_tolerance ?env = (\<lambda>i. tolerance_exceeded (zeros i) (zeros i) (zeros i))"
    by (simp add: host_run_def)
  have "fst (main ?env 0) = EXIT_SUCCESS \<longleftrightarrow>
          (\<forall>i. 0 \<le> i \<and> i < 50000 \<longrightarrow> \<not> tolerance_exceeded (zeros i) (zeros i) (zeros i))"
    by (rule main_reports_pass [where cuDevice = 0 and backingDevices = "[0, 1]"
          and d_A = 2097152 and d_B = 4194304 and d_C = 6291456
          and allocationSize = 200000 and nB = 200000 and nC = 200000
          and sA = 1 and sB = 2 and sC = 3 and ?s1.0 = 2 and ?s2.0 = 1 and ?s3.0 = 0,
          OF _ _ a b _ _ _ _ _ _ _ _ _ _ _ _ _ _ _ _ t])
       (simp_all add: host_run_def)
  then have "fst (main ?env 0) = EXIT_SUCCESS"
    by (simp add: zeros_def tolerance_exceeded_zeros)
  with a b t show ?thesis
    by (simp add: tolerance_exceeded_zeros) (simp add: host_run_def)
qed


section \<open>Properties of the allocator\<close>

lemma releaseChunks_fields:
  "live_chunks (releaseChunks st cs) = live_chunks st |` (- chunk_handle ` set cs)"
  "reserved (releaseChunks st cs) = reserved st"
  "mapped (releaseChunks st cs) = mapped st"
  "registry (releaseChunks st cs) = registry st"
proof (induction cs arbitrary: st)
  case Nil
  { case 1 show ?case by simp }
  { case 2 show ?case by simp }
  { case 3 show ?case by simp }
  { case 4 show ?case by simp }
next
  case (Cons c cs)
  { case 1 show ?case by (auto simp: Cons.IH restrict_map_def fun_eq_iff) }
  { case 2 show ?case by (simp add: Cons.IH) }
  { case 3 show ?case by (simp add: Cons.IH) }
  { case 4 show ?case by (simp add: Cons.IH) }
qed

lemma unmapChunks_fields:
  "mapped (unmapChunks st a cs) = mapped st |` (- set (chunkAddresses a cs))"
  "reserved (unmapChunks st a cs) = reserved st"
  "live_chunks (unmapChunks st a cs) = live_chunks st"
  "registry (unmapChunks st a cs) = registry st"
proof (induction cs arbitrary: st a)
  case Nil
  { case 1 show ?case by simp }
  { case 2 show ?case by simp }
  { case 3 show ?case by simp }
  { case 4 show ?case by simp }
next
  case (Cons c cs)
  { case 1 show ?case by (auto simp: Cons.IH restrict_map_def fun_eq_iff) }
  { case 2 show ?case by (simp add: Cons.IH) }
  { case 3 show ?case by (simp add: Cons.IH) }
  { case 4 show ?case by (simp add: Cons.IH) }
qed

lemma freeRange_fields:
  "reserved (freeRange st b) = (reserved st)(b := None)"
  "live_chunks (freeRange st b) = live_chunks st"
  "mapped (freeRange st b) = mapped st"
  "registry (freeRange st b) = registry st"
  by (simp_all add: freeRange_def)

lemma allocateChunks_frame:
  "allocateChunks rt st share devs = (r, st') \<Longrightarrow>
   reserved st' = reserved st \<and> mapped st' = mapped st \<and> registry st' = registry st"
proof (induction devs arbitrary: st r st')
  case Nil
  then show ?case by auto
next
  case (Cons d devs)
  show ?case
  proof (cases "createHandle rt (live_chunks st) d (roundUp share (granularityOf rt d))")
    case None
    with Cons.prems show ?thesis by auto
  next
    case (Some h)
    let ?c = "\<lparr>chunk_handle = h, chunk_device = d,
               chunk_size = roundUp share (granularityOf rt d)\<rparr>"
    let ?st = "st\<lparr>live_chunks := (live_chunks st)(h \<mapsto> ?c)\<rparr>"
    obtain r1 st1 where rec: "allocateChunks rt ?st share devs = (r1, st1)"
      by (cases "allocateChunks rt ?st share devs")
    from Cons.IH [OF rec] have ih:
      "reserved st1 = reserved st" "mapped st1 = mapped st" "registry st1 = registry st"
      by simp_all
    from Cons.prems Some rec ih show ?thesis
      by (cases r1) auto
  qed
qed

lemma allocateChunks_live:
  "allocateChunks rt st share devs = (r, st') \<Longrightarrow>
   (case r of
      Inr chunks \<Rightarrow> dom (live_chunks st') = dom (live_chunks st) \<union> chunk_handle ` set chunks
    | Inl e \<Rightarrow> dom (live_chunks st') \<subseteq> dom (live_chunks st))"
proof (induction devs arbitrary: st r st')
  case Nil
  then show ?case by auto
next
  case (Cons d devs)
  show ?case
  proof (cases "createHandle rt (live_chunks st) d (roundUp share (granularityOf rt d))")
    case None
    with Cons.prems show ?thesis by auto
  next
    case (Some h)
    let ?c = "\<lparr>chunk_handle = h, chunk_device = d,
               chunk_size = roundUp share (granularityOf rt d)\<rparr>"
    let ?st = "st\<lparr>live_chunks := (live_chunks st)(h \<mapsto> ?c)\<rparr>"
    obtain r1 st1 where rec: "allocateChunks rt ?st share devs = (r1, st1)"
      by (cases "allocateChunks rt ?st share devs")
    note ih = Cons.IH [OF rec]
    show ?thesis
    proof (cases r1)
      case (Inl e)
      with Cons.prems Some rec have r: "r = Inl e"
        and st': "st' = st1\<lparr>live_chunks := (live_chunks st1)(h := None)\<rparr>"
        by auto
      from ih Inl have "dom (live_chunks st1) \<subseteq> insert h (dom (live_chunks st))"
        by simp
      moreover from st' have "dom (live_chunks st') = dom (live_chunks st1) - {h}"
        by simp
      ultimately have "dom (live_chunks st') \<subseteq> dom (live_chunks st)"
        by blast
      with r show ?thesis by simp
    next
      case (Inr chunks)
      with Cons.prems Some rec ih show ?thesis by auto
    qed
  qed
qed

lemma mapChunks_frame:
  "mapChunks rt st a cs = (ok, st') \<Longrightarrow>
   reserved st' = reserved st \<and> live_chunks st' = live_chunks st \<and> registry st' = registry st"
proof (induction cs arbitrary: st a ok st')
  case Nil
  then show ?case by auto
next
  case (Cons c cs)
  show ?case
  proof (cases "mapHandle rt a (chunk_handle c)")
    case False
    with Cons.prems show ?thesis by auto
  next
    case True
    let ?st = "st\<lparr>mapped := (mapped st)(a \<mapsto> chunk_handle c)\<rparr>"
    obtain ok1 st1 where rec: "mapChunks rt ?st (a + chunk_size c) cs = (ok1, st1)"
      by (cases "mapChunks rt ?st (a + chunk_size c) cs")
    from Cons.IH [OF rec] have ih:
      "reserved st1 = reserved st" "live_chunks st1 = live_chunks st"
      "registry st1 = registry st"
      by simp_all
    from Cons.prems True rec ih show ?thesis
      by (cases ok1) auto
  qed
qed

lemma mapChunks_mapped:
  "mapChunks rt st a cs = (ok, st') \<Longrightarrow>
   (if ok then dom (mapped st') = dom (mapped st) \<union> set (chunkAddresses a cs)
    else dom (mapped st') \<subseteq> dom (mapped st))"
proof (induction cs arbitrary: st a ok st')
  case Nil
  then show ?case by auto
next
  case (Cons c cs)
  show ?case
  proof (cases "mapHandle rt a (chunk_handle c)")
    case False
    with Cons.prems show ?thesis by auto
  next
    case True
    let ?st = "st\<lparr>mapped := (mapped st)(a \<mapsto> chunk_handle c)\<rparr>"
    obtain ok1 st1 where rec: "mapChunks rt ?st (a + chunk_size c) cs = (ok1, st1)"
      by (cases "mapChunks rt ?st (a + chunk_size c) cs")
    note ih = Cons.IH [OF rec]
    show ?thesis
    proof (cases ok1)
      case True
      with Cons.prems \<open>mapHandle rt a (chunk_handle c)\<close> rec ih show ?thesis by auto
    next
      case False
      with Cons.prems \<open>mapHandle rt a (chunk_handle c)\<close> rec have ok: "\<not> ok"
        and st': "st' = st1\<lparr>mapped := (mapped st1)(a := None)\<rparr>"
        by auto
      from ih False have "dom (mapped st1) \<subseteq> insert a (dom (mapped st))"
        by simp
      moreover from st' have "dom (mapped st') = dom (mapped st1) - {a}"
        by simp
      ultimately have "dom (mapped st') \<subseteq> dom (mapped st)"
        by blast
      with ok show ?thesis by simp
    qed
  qed
qed


lemma allocate_registry:
  "allocate rt st n bs ms = (r, st') \<Longrightarrow>
   (case r of
      Inl e \<Rightarrow> registry st' = registry st
    | Inr (p, actual) \<Rightarrow> \<exists>a. registry st' = (registry st)(p \<mapsto> a))"
proof -
  assume a: "allocate rt st n bs ms = (r, st')"
  obtain r1 st1 where ch: "allocateChunks rt st (shareOf n bs) bs = (r1, st1)"
    by (cases "allocateChunks rt st (shareOf n bs) bs")
  note f1 = allocateChunks_frame [OF ch]
  show ?thesis
  proof (cases r1)
    case (Inl e)
    with a ch f1 show ?thesis by (auto simp: allocate_def)
  next
    case (Inr chunks)
    let ?total = "sum_list (map chunk_size chunks)"
    let ?al = "foldr max (map (granularityOf rt) bs) 0"
    show ?thesis
    proof (cases "reserveAddress rt (reserved st1) ?total ?al")
      case None
      with a ch Inr f1 show ?thesis
        by (auto simp: allocate_def releaseChunks_fields)
    next
      case (Some base)
      let ?st = "st1\<lparr>reserved := (reserved st1)(base \<mapsto> ?total)\<rparr>"
      obtain ok st2 where mp: "mapChunks rt ?st base chunks = (ok, st2)"
        by (cases "mapChunks rt ?st base chunks")
      from mapChunks_frame [OF mp] f1 have f2: "registry st2 = registry st" by simp
      from a ch Inr Some mp f2 show ?thesis
        by (cases ok)
           (auto simp: allocate_def Let_def releaseChunks_fields unmapChunks_fields
              freeRange_fields split: if_splits)
    qed
  qed
qed

lemma allocate_success:
  assumes "allocate rt st n bs ms = (Inr (p, actual), st')"
  shows "\<exists>chunks. registry st' =
           (registry st)(p \<mapsto> \<lparr>alloc_range = \<lparr>range_base = p, range_size = actual\<rparr>,
                               alloc_chunks = chunks, alloc_mappingSet = ms\<rparr>) \<and>
           dom (live_chunks st') = dom (live_chunks st) \<union> chunk_handle ` set chunks \<and>
           reserved st' = (reserved st)(p \<mapsto> actual) \<and>
           dom (mapped st') = dom (mapped st) \<union> set (chunkAddresses p chunks)"
proof -
  obtain r1 st1 where ch: "allocateChunks rt st (shareOf n bs) bs = (r1, st1)"
    by (cases "allocateChunks rt st (shareOf n bs) bs")
  from assms ch obtain chunks where r1: "r1 = Inr chunks"
    by (cases r1) (auto simp: allocate_def)
  let ?total = "sum_list (map chunk_size chunks)"
  let ?al = "foldr max (map (granularityOf rt) bs) 0"
  from assms ch r1 obtain base where rs: "reserveAddress rt (reserved st1) ?total ?al = Some base"
    by (cases "reserveAddress rt (reserved st1) ?total ?al") (auto simp: allocate_def)
  let ?st = "st1\<lparr>reserved := (reserved st1)(base \<mapsto> ?total)\<rparr>"
  obtain ok st2 where mp: "mapChunks rt ?st base chunks = (ok, st2)"
    by (cases "mapChunks rt ?st base chunks")
  from assms ch r1 rs mp have ok: "ok"
    by (cases ok) (auto simp: allocate_def Let_def split: if_splits)
  from assms ch r1 rs mp ok have res: "p = base" "actual = ?total"
    and st': "st' = st2\<lparr>registry := (registry st2)
                (base \<mapsto> \<lparr>alloc_range = \<lparr>range_base = base, range_size = ?total\<rparr>,
                           alloc_chunks = chunks, alloc_mappingSet = ms\<rparr>)\<rparr>"
    by (auto simp: allocate_def Let_def split: if_splits)
  note f1 = allocateChunks_frame [OF ch]
  from allocateChunks_live [OF ch] r1
  have l1: "dom (live_chunks st1) = dom (live_chunks st) \<union> chunk_handle ` set chunks"
    by simp
  note f2 = mapChunks_frame [OF mp]
  from mapChunks_mapped [OF mp] ok
  have m2: "dom (mapped st2) = dom (mapped ?st) \<union> set (chunkAddresses base chunks)"
    by simp
  have "registry st' =
           (registry st)(p \<mapsto> \<lparr>alloc_range = \<lparr>range_base = p, range_size = actual\<rparr>,
                               alloc_chunks = chunks, alloc_mappingSet = ms\<rparr>)"
    using st' res f1 f2 by simp
  moreover have "dom (live_chunks st') = dom (live_chunks st) \<union> chunk_handle ` set chunks"
    using st' f2 l1 by simp
  moreover have "reserved st' = (reserved st)(p \<mapsto> actual)"
    using st' res f1 f2 by simp
  moreover have "dom (mapped st') = dom (mapped st) \<union> set (chunkAddresses p chunks)"
    using st' res f1 m2 by simp
  ultimately show ?thesis by blast
qed

lemma free_absent: "registry st p = None \<Longrightarrow> free st p n = (Inl UnknownAllocation, st)"
  by (simp add: free_def)

lemma free_present:
  assumes "registry st p = Some a"
  shows "\<exists>st'. free st p n = (Inr (), st') \<and>
           registry st' = (registry st)(p := None) \<and>
           live_chunks st' = live_chunks st |` (- chunk_handle ` set (alloc_chunks a)) \<and>
           reserved st' = (reserved st)(range_base (alloc_range a) := None) \<and>
           mapped st' = mapped st |`
             (- set (chunkAddresses (range_base (alloc_range a)) (alloc_chunks a)))"
  using assms
  by (simp add: free_def Let_def releaseChunks_fields unmapChunks_fields freeRange_fields)

lemma free_registry:
  "free st p n = (r, st') \<Longrightarrow>
   (case r of Inl e \<Rightarrow> st' = st | Inr u \<Rightarrow> p \<in> dom (registry st) \<and> registry st' = (registry st)(p := None))"
  by (cases "registry st p")
     (auto simp: free_def Let_def releaseChunks_fields unmapChunks_fields freeRange_fields)

text \<open>
  C3: an \<open>allocate\<close> that returns \<open>(pointer, actualSize)\<close>, followed at once by \<open>free\<close>
  of that pair: the \<open>free\<close> succeeds, the pointer is no longer registered, and no registry
  entry, physical chunk, reservation or mapping exists afterwards that did not exist before
  the \<open>allocate\<close>. From the initial state everything is empty again.
\<close>

theorem allocate_then_free_releases_everything:
  assumes "allocate rt st requestedSize backingSet mappingSet = (Inr (pointer, actualSize), st1)"
  shows "\<exists>st2. free st1 pointer actualSize = (Inr (), st2) \<and>
           registry st2 pointer = None \<and>
           dom (registry st2) \<subseteq> dom (registry st) \<and>
           dom (live_chunks st2) \<subseteq> dom (live_chunks st) \<and>
           dom (reserved st2) \<subseteq> dom (reserved st) \<and>
           dom (mapped st2) \<subseteq> dom (mapped st)"
proof -
  from allocate_success [OF assms] obtain chunks where
    reg: "registry st1 =
           (registry st)(pointer \<mapsto> \<lparr>alloc_range = \<lparr>range_base = pointer, range_size = actualSize\<rparr>,
                               alloc_chunks = chunks, alloc_mappingSet = mappingSet\<rparr>)"
    and live: "dom (live_chunks st1) = dom (live_chunks st) \<union> chunk_handle ` set chunks"
    and res: "reserved st1 = (reserved st)(pointer \<mapsto> actualSize)"
    and map: "dom (mapped st1) = dom (mapped st) \<union> set (chunkAddresses pointer chunks)"
    by blast
  let ?a = "\<lparr>alloc_range = \<lparr>range_base = pointer, range_size = actualSize\<rparr>,
             alloc_chunks = chunks, alloc_mappingSet = mappingSet\<rparr>"
  from reg have "registry st1 pointer = Some ?a" by simp
  from free_present [OF this, of actualSize] obtain st2 where
    fr: "free st1 pointer actualSize = (Inr (), st2)"
    and reg2: "registry st2 = (registry st1)(pointer := None)"
    and live2: "live_chunks st2 = live_chunks st1 |` (- chunk_handle ` set chunks)"
    and res2: "reserved st2 = (reserved st1)(pointer := None)"
    and map2: "mapped st2 = mapped st1 |` (- set (chunkAddresses pointer chunks))"
    by auto
  from reg2 have "registry st2 pointer = None" by simp
  moreover from reg2 reg have "dom (registry st2) \<subseteq> dom (registry st)" by auto
  moreover from live2 live have "dom (live_chunks st2) \<subseteq> dom (live_chunks st)" by auto
  moreover from res2 res have "dom (reserved st2) \<subseteq> dom (reserved st)" by auto
  moreover from map2 map have "dom (mapped st2) \<subseteq> dom (mapped st)" by auto
  ultimately show ?thesis using fr by blast
qed

lemma example_share: "shareOf 5000 [0, 1] = 2500"
proof -
  have "length [0, 1 :: int] = 2" by simp
  then have "shareOf 5000 [0, 1] = (5000 + 2 - 1) div 2"
    by (simp only: shareOf_def list.distinct if_False)
  then show ?thesis by simp
qed

lemma example_allocate:
  "fst (allocate example_vmm initial_state 5000 [0, 1] [0]) = Inr (65536, 8192)"
  by (simp add: allocate_def example_share roundUp_def example_vmm_def initial_state_def Let_def)

theorem allocate_then_free_releases_everything_witness:
  "fst (allocate example_vmm initial_state 5000 [0, 1] [0]) = Inr (65536, 8192) \<and>
   (\<exists>st2. free (snd (allocate example_vmm initial_state 5000 [0, 1] [0])) 65536 8192 = (Inr (), st2) \<and>
          registry st2 = Map.empty \<and> live_chunks st2 = Map.empty \<and>
          reserved st2 = Map.empty \<and> mapped st2 = Map.empty)"
proof -
  let ?r = "allocate example_vmm initial_state 5000 [0, 1] [0]"
  have "?r = (Inr (65536, 8192), snd ?r)"
    using example_allocate by (simp add: prod_eq_iff)
  from allocate_then_free_releases_everything [OF this] obtain st2 where
    f: "free (snd ?r) 65536 8192 = (Inr (), st2)"
    and d: "dom (registry st2) \<subseteq> dom (registry initial_state)"
      "dom (live_chunks st2) \<subseteq> dom (live_chunks initial_state)"
      "dom (reserved st2) \<subseteq> dom (reserved initial_state)"
      "dom (mapped st2) \<subseteq> dom (mapped initial_state)"
    by blast
  from d have "registry st2 = Map.empty" "live_chunks st2 = Map.empty"
    "reserved st2 = Map.empty" "mapped st2 = Map.empty"
    by (simp_all add: initial_state_def)
  with f example_allocate show ?thesis by simp
qed

lemma serve_registry:
  "serve rt st rq = (rsp, st') \<Longrightarrow>
   dom (registry st') = outstanding (dom (registry st)) [(rq, rsp)]"
proof (cases rq)
  case (Allocate n bs ms)
  assume s: "serve rt st rq = (rsp, st')"
  obtain r st1 where a: "allocate rt st n bs ms = (r, st1)"
    by (cases "allocate rt st n bs ms")
  from allocate_registry [OF a] s a Allocate show ?thesis
    by (cases r) auto
next
  case (Free p n)
  assume s: "serve rt st rq = (rsp, st')"
  obtain r st1 where f: "free st p n = (r, st1)"
    by (cases "free st p n")
  from free_registry [OF f] s f Free show ?thesis
    by (cases r) auto
qed

lemma outstanding_Cons:
  "outstanding P (x # h) = outstanding (outstanding P [x]) h"
  by (cases "(P, x # h)" rule: outstanding.cases) auto

lemma serve_all_registry:
  "serve_all rt st rqs = (rsps, st') \<Longrightarrow>
   dom (registry st') = outstanding (dom (registry st)) (zip rqs rsps)"
proof (induction rqs arbitrary: st rsps st')
  case Nil
  then show ?case by simp
next
  case (Cons rq rqs)
  obtain rsp st1 where s: "serve rt st rq = (rsp, st1)"
    by (cases "serve rt st rq")
  obtain rsps1 st2 where r: "serve_all rt st1 rqs = (rsps1, st2)"
    by (cases "serve_all rt st1 rqs")
  from Cons.prems s r have eq: "rsps = rsp # rsps1" "st' = st2" by auto
  from eq have "outstanding (dom (registry st)) (zip (rq # rqs) rsps) =
      outstanding (outstanding (dom (registry st)) [(rq, rsp)]) (zip rqs rsps1)"
    by (simp only: zip_Cons_Cons outstanding_Cons [of _ "(rq, rsp)" "zip rqs rsps1"])
  also from serve_registry [OF s] have "\<dots> = outstanding (dom (registry st1)) (zip rqs rsps1)"
    by simp
  also from Cons.IH [OF r] have "\<dots> = dom (registry st2)"
    by simp
  finally show ?case using eq by simp
qed

text \<open>
  C4: after any history of requests from the initial state, \<open>free\<close> of a pointer that is
  not outstanding (no \<open>allocate\<close> returned it, or a \<open>free\<close> has succeeded on it since)
  fails with \<open>UnknownAllocation\<close> and returns the state unchanged. A second \<open>free\<close> of
  the same pointer is the case of the witness.
\<close>

theorem free_of_unknown_pointer_fails_cleanly:
  assumes "serve_all rt initial_state requests = (responses, st)"
      and "pointer \<notin> outstanding {} (zip requests responses)"
  shows "free st pointer nominalSize = (Inl UnknownAllocation, st)"
proof -
  from serve_all_registry [OF assms(1)] assms(2) have "pointer \<notin> dom (registry st)"
    by (simp add: initial_state_def)
  then show ?thesis by (simp add: free_absent domIff)
qed

lemma example_history:
  "fst (serve_all example_vmm initial_state [Allocate 5000 [0, 1] [0], Free 65536 8192]) =
     [Allocated 65536 8192, Freed]"
proof -
  let ?r = "allocate example_vmm initial_state 5000 [0, 1] [0]"
  have a: "?r = (Inr (65536, 8192), snd ?r)"
    using example_allocate by (simp add: prod_eq_iff)
  from allocate_success [OF a] obtain entry where
    "registry (snd ?r) 65536 = Some entry" by auto
  from free_present [OF this, of 8192] obtain st2 where
    "free (snd ?r) 65536 8192 = (Inr (), st2)" by blast
  then show ?thesis
    by (subst serve_all.simps, subst serve.simps, subst a) simp
qed

theorem free_of_unknown_pointer_fails_cleanly_witness:
  "fst (serve_all example_vmm initial_state [Allocate 5000 [0, 1] [0], Free 65536 8192]) =
     [Allocated 65536 8192, Freed] \<and>
   65536 \<notin> outstanding {} (zip [Allocate 5000 [0, 1] [0], Free 65536 8192]
                                [Allocated 65536 8192, Freed]) \<and>
   free (snd (serve_all example_vmm initial_state [Allocate 5000 [0, 1] [0], Free 65536 8192]))
        65536 8192 =
     (Inl UnknownAllocation,
      snd (serve_all example_vmm initial_state [Allocate 5000 [0, 1] [0], Free 65536 8192]))"
proof -
  let ?h = "serve_all example_vmm initial_state [Allocate 5000 [0, 1] [0], Free 65536 8192]"
  have h: "?h = ([Allocated 65536 8192, Freed], snd ?h)"
    using example_history by (simp add: prod_eq_iff)
  have o: "65536 \<notin> outstanding {} (zip [Allocate 5000 [0, 1] [0], Free 65536 8192]
                                [Allocated 65536 8192, Freed])"
    by simp
  from free_of_unknown_pointer_fails_cleanly [OF h o, of 8192] example_history o
  show ?thesis by simp
qed



end
